theory Spec2Isabelle
  imports Complex_Main "HOL-Library.AList"
begin

section \<open>Blueprints as JSON trees\<close>

text \<open>
  The handlers of \<^verbatim>\<open>src/mcp/server.ts\<close> work on the value returned by
  \<^verbatim>\<open>JSON.parse\<close>: an untyped tree. It is embedded as it is, so that malformed
  blueprints (a node that is \<^verbatim>\<open>null\<close>, a \<^verbatim>\<open>routes\<close> field that is a string) are
  inputs of the model as they are inputs of the code. An object is an association list in
  property order. Numeric leaves are integers: the code only compares them with the
  integers of the version registry and tests them for truthiness. A number literal
  that overflows (\<^verbatim>\<open>1e999\<close>) is parsed to \<^verbatim>\<open>Infinity\<close>, or to \<^verbatim>\<open>-Infinity\<close> when it
  is negative: \<open>JInf\<close>, with the sign. Strings are
  sequences of 8-bit characters, the code units from 0 to 255 (Latin-1); on them the
  character classes \<^verbatim>\<open>[a-z]\<close>, \<^verbatim>\<open>[A-Z]\<close> and \<^verbatim>\<open>\d\<close> of the code are the ASCII ones,
  \<^verbatim>\<open>\s\<close> and \<^verbatim>\<open>trim\<close> know the six ASCII blanks and the no-break space, and
  \<^verbatim>\<open>toLowerCase\<close> maps the ASCII and the accented capitals.
\<close>

datatype json =
    JNull
  | JBool bool
  | JNum int
  | JInf bool
  | JStr string
  | JArr "json list"
  | JObj "(string \<times> json) list"

text \<open>
  \<^verbatim>\<open>v.k\<close> for a key \<open>k\<close>: the own property of an object, \<^verbatim>\<open>undefined\<close> (here
  \<open>None\<close>) on every other non-null value. The keys read by the code are not members of a
  built-in prototype, with one exception, \<^verbatim>\<open>filter\<close> on arrays, which is handled where
  it is read. Reading a property of \<^verbatim>\<open>null\<close> raises a \<^verbatim>\<open>TypeError\<close>; every such read
  is guarded explicitly in the functions below.
\<close>

fun get_prop :: "json \<Rightarrow> string \<Rightarrow> json option" where
  "get_prop (JObj kvs) k = map_of kvs k"
| "get_prop _ k = None"

text \<open>JavaScript truthiness of a parsed value; \<open>None\<close> is \<^verbatim>\<open>undefined\<close>.\<close>

fun truthy :: "json \<Rightarrow> bool" where
  "truthy JNull = False"
| "truthy (JBool b) = b"
| "truthy (JNum n) = (n \<noteq> 0)"
| "truthy (JInf negative) = True"
| "truthy (JStr s) = (s \<noteq> [])"
| "truthy (JArr _) = True"
| "truthy (JObj _) = True"

definition truthy_opt :: "json option \<Rightarrow> bool" where
  "truthy_opt v = (case v of None \<Rightarrow> False | Some j \<Rightarrow> truthy j)"

text \<open>\<^verbatim>\<open>x && typeof x === 'object'\<close>: objects and arrays.\<close>

fun is_object :: "json \<Rightarrow> bool" where
  "is_object (JArr _) = True"
| "is_object (JObj _) = True"
| "is_object _ = False"

text \<open>
  Assignment \<^verbatim>\<open>o.k = v\<close> and \<^verbatim>\<open>delete o.k\<close> on an object: an existing property keeps
  its place, a new one goes last.
\<close>

definition set_prop :: "string \<Rightarrow> json \<Rightarrow> (string \<times> json) list \<Rightarrow> (string \<times> json) list" where
  "set_prop k v kvs = AList.update k v kvs"

definition del_prop :: "string \<Rightarrow> (string \<times> json) list \<Rightarrow> (string \<times> json) list" where
  "del_prop k kvs = AList.delete k kvs"

text \<open>
  A function that is handed an array of the tree returns the array as it leaves it;
  \<open>put_back\<close> puts it back where it was read. The property keeps its place.
\<close>

definition put_back :: "json \<Rightarrow> string \<Rightarrow> json list option \<Rightarrow> json" where
  "put_back owner k sub =
     (case sub of
        None \<Rightarrow> owner
      | Some xs \<Rightarrow> (case owner of JObj kvs \<Rightarrow> JObj (set_prop k (JArr xs) kvs) | _ \<Rightarrow> owner))"

datatype exn = TypeError



section \<open>Strings\<close>

definition is_lower :: "char \<Rightarrow> bool" where
  "is_lower c = (97 \<le> (of_char c :: nat) \<and> (of_char c :: nat) \<le> 122)"

definition is_upper :: "char \<Rightarrow> bool" where
  "is_upper c = (65 \<le> (of_char c :: nat) \<and> (of_char c :: nat) \<le> 90)"

definition is_digit :: "char \<Rightarrow> bool" where
  "is_digit c = (48 \<le> (of_char c :: nat) \<and> (of_char c :: nat) \<le> 57)"

definition is_alnum :: "char \<Rightarrow> bool" where
  "is_alnum c = (is_lower c \<or> is_upper c \<or> is_digit c)"

text \<open>The capitals from \<^verbatim>\<open>U+00C0\<close> to \<^verbatim>\<open>U+00DE\<close>; \<^verbatim>\<open>U+00D7\<close> is the multiplication sign.\<close>

definition is_upper_latin1 :: "char \<Rightarrow> bool" where
  "is_upper_latin1 c =
     (192 \<le> (of_char c :: nat) \<and> (of_char c :: nat) \<le> 222 \<and> (of_char c :: nat) \<noteq> 215)"

definition to_lower :: "char \<Rightarrow> char" where
  "to_lower c =
     (if is_upper c \<or> is_upper_latin1 c then char_of ((of_char c :: nat) + 32) else c)"

definition toLowerCase :: "string \<Rightarrow> string" where
  "toLowerCase s = map to_lower s"

text \<open>\<^verbatim>\<open>s.split(c)\<close> for a one-character separator.\<close>

fun split_on :: "char \<Rightarrow> string \<Rightarrow> string list" where
  "split_on c [] = [[]]"
| "split_on c (x # xs) =
     (if x = c then [] # split_on c xs
      else (case split_on c xs of
              [] \<Rightarrow> [[x]]
            | w # ws \<Rightarrow> (x # w) # ws))"

definition startsWith :: "string \<Rightarrow> string \<Rightarrow> bool" where
  "startsWith s p = (take (length p) s = p)"

text \<open>\<^verbatim>\<open>s.includes(p)\<close>.\<close>

fun str_includes :: "string \<Rightarrow> string \<Rightarrow> bool" where
  "str_includes [] p = (p = [])"
| "str_includes (x # xs) p = (startsWith (x # xs) p \<or> str_includes xs p)"

text \<open>Decimal rendering of a non-negative integer, as in a template literal.\<close>

function string_of_nat :: "nat \<Rightarrow> string" where
  "string_of_nat n =
     (if n < 10 then [char_of (48 + n)]
      else string_of_nat (n div 10) @ [char_of (48 + n mod 10)])"
  by pat_completeness auto
termination
  by (relation "measure id") auto

declare string_of_nat.simps [simp del]

section \<open>The registries\<close>

definition VERIFIED_MODULE_VERSIONS :: "(string \<times> int) list" where
  "VERIFIED_MODULE_VERSIONS =
    [(''json:ParseJSON'', 1),
     (''json:CreateJSON'', 1),
     (''json:TransformToJSON'', 1),
     (''gateway:CustomWebHook'', 1),
     (''gateway:WebhookRespond'', 1),
     (''builtin:BasicRouter'', 1),
     (''builtin:BasicFeeder'', 1),
     (''builtin:BasicAggregator'', 1),
     (''http:ActionSendData'', 3),
     (''http:ActionSendDataBasicAuth'', 3),
     (''http:ActionGetFile'', 3),
     (''http:ActionSendDataAdvanced'', 3),
     (''google-sheets:ActionAddRow'', 1),
     (''google-sheets:ActionUpdateRow'', 1),
     (''google-sheets:ActionDeleteRow'', 1),
     (''util:SetVariable'', 1),
     (''util:GetVariable'', 1),
     (''util:SetMultipleVariables'', 1),
     (''slack:ActionPostMessage'', 1),
     (''datastore:ActionGetRecord'', 1),
     (''datastore:ActionAddRecord'', 1),
     (''datastore:ActionUpdateRecord'', 1),
     (''datastore:ActionDeleteRecord'', 1),
     (''datastore:ActionSearchRecords'', 1)]"

definition verifiedVersion :: "string \<Rightarrow> int option" where
  "verifiedVersion m = map_of VERIFIED_MODULE_VERSIONS m"

text \<open>
  The registries are object literals, and a read \<^verbatim>\<open>table[id]\<close> finds, besides the
  entries of the table, what every object literal inherits from \<^verbatim>\<open>Object.prototype\<close>:
  under the key \<^verbatim>\<open>__proto__\<close> the prototype itself, an object with no enumerable
  property, and under the name of one of its methods that function. Neither value is
  \<^verbatim>\<open>undefined\<close>. \<^verbatim>\<open>JSON.stringify\<close> writes the first as \<^verbatim>\<open>{}\<close> and leaves out a
  property that holds the second. None of these keys has a colon, so they are never
  the module id that \<^verbatim>\<open>extractIm007ModuleId\<close> returns.
\<close>

datatype inherited = Prototype_object | Method

definition Object_prototype_methods :: "string list" where
  "Object_prototype_methods =
     [''constructor'', ''__defineGetter__'', ''__defineSetter__'', ''hasOwnProperty'',
      ''__lookupGetter__'', ''__lookupSetter__'', ''isPrototypeOf'', ''propertyIsEnumerable'',
      ''toString'', ''valueOf'', ''toLocaleString'']"

definition inherited_member :: "string \<Rightarrow> inherited option" where
  "inherited_member k =
     (if k = ''__proto__'' then Some Prototype_object
      else if k \<in> set Object_prototype_methods then Some Method
      else None)"

text \<open>
  The denylist. Only the keys and the alternative decide control flow; the reason texts
  are carried for the failure report. \<open>getProblematicModuleInfo\<close> is the lookup on the
  ids that the retry loop passes to it, which have a colon; for the key of an inherited
  member the code would answer with that member.
\<close>

record problem_info =
  alternative :: string
  reason :: string

definition openai_reason :: string where
  "openai_reason = ''OpenAI modules often fail via API deployment. Use http:ActionSendData (v3) to call the OpenAI API directly.''"

definition PROBLEMATIC_MODULES :: "(string \<times> problem_info) list" where
  "PROBLEMATIC_MODULES =
    [(''openai:ActionCreateCompletion'',
        \<lparr>alternative = ''http:ActionSendData'',
         reason = ''OpenAI modules often fail via API deployment. Use http:ActionSendData (v3) to call the OpenAI API directly at https://api.openai.com/v1/chat/completions.''\<rparr>),
     (''openai-gpt-3:ActionCreateCompletion'',
        \<lparr>alternative = ''http:ActionSendData'', reason = openai_reason\<rparr>),
     (''openai-gpt-3:ActionCreateChatCompletion'',
        \<lparr>alternative = ''http:ActionSendData'', reason = openai_reason\<rparr>),
     (''openai:ActionAnalyzeImages'',
        \<lparr>alternative = ''http:ActionSendData'', reason = openai_reason\<rparr>),
     (''openai:ActionCreateImage'',
        \<lparr>alternative = ''http:ActionSendData'',
         reason = ''OpenAI image modules often fail via API deployment. Use http:ActionSendData (v3) to call the OpenAI DALL-E API directly.''\<rparr>),
     (''email:ActionSendEmail'',
        \<lparr>alternative = ''microsoft-smtp-imap:ActionSendAnEmail'',
         reason = ''Generic email module may not be available. Use a specific provider module (Gmail, Microsoft SMTP/IMAP) or http:ActionSendData with an email API.''\<rparr>),
     (''ai-provider:ActionChatCompletion'',
        \<lparr>alternative = ''http:ActionSendData'',
         reason = ''AI Provider module may not be deployable via API. Use http:ActionSendData to call AI APIs directly.''\<rparr>)]"

definition getProblematicModuleInfo :: "string \<Rightarrow> problem_info option" where
  "getProblematicModuleInfo moduleId =
     (case map_of PROBLEMATIC_MODULES moduleId of
        Some info \<Rightarrow> Some info
      | None \<Rightarrow>
          (let appPrefix = hd (split_on CHR '':'' moduleId) in
           if appPrefix = ''openai'' \<or> appPrefix = ''openai-gpt-3''
           then Some \<lparr>alternative = ''http:ActionSendData'',
                      reason = ''OpenAI modules ('' @ moduleId @
                        '') often fail via API deployment. Use http:ActionSendData (v3) to call the OpenAI API directly.''\<rparr>
           else None))"

section \<open>The compatibility resolver\<close>

definition normalizeModuleId :: "string \<Rightarrow> string" where
  "normalizeModuleId moduleId =
     filter (\<lambda>c. is_lower c \<or> is_digit c \<or> c = CHR '':'') (toLowerCase moduleId)"

text \<open>
  \<^verbatim>\<open>tokenizeModulePart\<close>, one function per step of the chain: a blank between a lower-case
  and an upper-case letter, every run of other characters replaced by one blank,
  lower-casing, and the non-empty pieces between blanks.
\<close>

fun camel_boundaries :: "string \<Rightarrow> string" where
  "camel_boundaries (a # b # cs) =
     (if is_lower a \<and> is_upper b then a # CHR '' '' # camel_boundaries (b # cs)
      else a # camel_boundaries (b # cs))"
| "camel_boundaries cs = cs"

fun blank_runs :: "bool \<Rightarrow> string \<Rightarrow> string" where
  "blank_runs run [] = []"
| "blank_runs run (c # cs) =
     (if is_alnum c then c # blank_runs False cs
      else if run then blank_runs True cs
      else CHR '' '' # blank_runs True cs)"

definition tokenizeModulePart :: "string \<Rightarrow> string list" where
  "tokenizeModulePart v =
     filter (\<lambda>w. w \<noteq> [])
       (split_on CHR '' '' (toLowerCase (blank_runs False (camel_boundaries v))))"

text \<open>
  The live catalog is a \<^verbatim>\<open>Set<string>\<close>; it is represented by the list of its members in
  iteration order. \<open>best_step\<close> is the body of the scoring loop: \<open>overlap\<close> counts the
  candidate's tokens (a list) that are in the target's token set, and the score divides
  by the size of that set, or by 1 when it is empty. The quotient is a rational number;
  the double of the code orders two scores and compares with \<^verbatim>\<open>0.5\<close> in the same way
  as long as the token counts are below \<open>2 ^ 26\<close>.
\<close>

definition candidate_tokens :: "string \<Rightarrow> string list" where
  "candidate_tokens candidate =
     (let candidatePart = (case split_on CHR '':'' candidate of _ # p # _ \<Rightarrow> p | _ \<Rightarrow> [])
      in tokenizeModulePart candidatePart)"

definition score_of :: "string list \<Rightarrow> string \<Rightarrow> rat" where
  "score_of targetTokens candidate =
     (let candidateTokens = candidate_tokens candidate;
          overlap = length (filter (\<lambda>t. t \<in> set targetTokens) candidateTokens)
      in of_nat overlap / of_nat (max (card (set targetTokens)) 1))"

definition best_step :: "string list \<Rightarrow> string \<Rightarrow> (string \<times> rat) option \<Rightarrow> (string \<times> rat) option" where
  "best_step targetTokens candidate best =
     (let score = score_of targetTokens candidate in
      case best of
        None \<Rightarrow> Some (candidate, score)
      | Some (b, s) \<Rightarrow> if score > s then Some (candidate, score) else Some (b, s))"

definition token_overlap_stage :: "string \<Rightarrow> string list \<Rightarrow> string option" where
  "token_overlap_stage moduleId liveIds =
     (case split_on CHR '':'' moduleId of
        appPart # modulePart # _ \<Rightarrow>
          if appPart = [] \<or> modulePart = [] then None
          else
            let targetTokens = tokenizeModulePart modulePart;
                candidates = filter (\<lambda>i. startsWith i (appPart @ '':'')) liveIds
            in if candidates = [] then None
               else (case fold (best_step targetTokens) candidates None of
                       None \<Rightarrow> None
                     | Some (b, s) \<Rightarrow> if s < 1 / 2 then None else Some b)
      | _ \<Rightarrow> None)"

definition resolveClosestLiveModule :: "string \<Rightarrow> string list \<Rightarrow> string option" where
  "resolveClosestLiveModule moduleId liveIds =
     (if moduleId \<in> set liveIds then Some moduleId
      else
        let moduleNorm = normalizeModuleId moduleId;
            exactNormalized = filter (\<lambda>liveId. normalizeModuleId liveId = moduleNorm) liveIds
        in (case exactNormalized of
              [x] \<Rightarrow> Some x
            | _ \<Rightarrow> token_overlap_stage moduleId liveIds))"


text \<open>
  The score in the words of the specification: the size of the intersection of the two
  token sets over the size of the target's token set.
\<close>

definition spec_score :: "string list \<Rightarrow> string list \<Rightarrow> rat" where
  "spec_score targetTokens candidateTokens =
     of_nat (card (set targetTokens \<inter> set candidateTokens)) / of_nat (card (set targetTokens))"

section \<open>Walking the flow tree\<close>

text \<open>
  Every walker of the code is a loop over a flow with an inner loop over the routes of a
  node; each is a pair of mutually recursive functions on the two lists. The measure is
  the size of the list walked: a value read from a property is smaller than its owner.
\<close>

lemma size_map_of_less:
  "map_of kvs k = Some v \<Longrightarrow> size v < Suc (size_list (size_prod (\<lambda>x. 0) size) kvs)"
  by (induction kvs) (auto split: if_splits)

lemma get_prop_size: "get_prop j k = Some v \<Longrightarrow> size v < size j"
  by (cases j) (auto dest: size_map_of_less)

lemma get_prop_arr_size:
  "get_prop j k = Some (JArr xs) \<Longrightarrow> size_list size xs < size j"
  by (drule get_prop_size) simp

definition pos_of :: "string \<Rightarrow> nat \<Rightarrow> string" where
  "pos_of pathPrefix i = pathPrefix @ ''['' @ string_of_nat i @ '']''"

definition route_prefix :: "string \<Rightarrow> nat \<Rightarrow> string" where
  "route_prefix pos r = pos @ ''.routes['' @ string_of_nat r @ '']''"

text \<open>White space and line terminators, and \<^verbatim>\<open>s.trim()\<close> being non-empty.\<close>

definition is_space :: "char \<Rightarrow> bool" where
  "is_space c = ((of_char c :: nat) \<in> {9, 10, 11, 12, 13, 32, 160})"

definition trim_nonempty :: "string \<Rightarrow> bool" where
  "trim_nonempty s = list_ex (\<lambda>c. \<not> is_space c) s"

function extractAllFlowModules :: "json list \<Rightarrow> string \<Rightarrow> nat \<Rightarrow> (string \<times> string) list"
  and extractRoutes :: "json list \<Rightarrow> string \<Rightarrow> nat \<Rightarrow> (string \<times> string) list"
where
  "extractAllFlowModules [] pathPrefix i = []"
| "extractAllFlowModules (node # flow) pathPrefix i =
     (let pos = pos_of pathPrefix i in
      (if \<not> is_object node then []
       else
         (case get_prop node ''module'' of
            Some (JStr m) \<Rightarrow> if trim_nonempty m then [(m, pos)] else []
          | _ \<Rightarrow> [])
         @ (case get_prop node ''routes'' of
              Some (JArr routes) \<Rightarrow> extractRoutes routes pos 0
            | _ \<Rightarrow> []))
      @ extractAllFlowModules flow pathPrefix (Suc i))"
| "extractRoutes [] pos r = []"
| "extractRoutes (route # routes) pos r =
     (case get_prop route ''flow'' of
        Some (JArr routeFlow) \<Rightarrow> extractAllFlowModules routeFlow (route_prefix pos r) 0
      | _ \<Rightarrow> [])
     @ extractRoutes routes pos (Suc r)"
  by pat_completeness auto
termination
  by (relation "measure (\<lambda>x. case x of Inl (f, _) \<Rightarrow> size_list size f
                                      | Inr (rs, _) \<Rightarrow> size_list size rs)")
     (auto dest: get_prop_arr_size)

text \<open>
  The nodes of a tree, in document order, and its routes: a flow holds its elements, an
  element whose \<^verbatim>\<open>routes\<close> is an array holds the routes in it, and a route whose
  \<^verbatim>\<open>flow\<close> is an array holds the nodes of that flow.
\<close>

function all_nodes :: "json list \<Rightarrow> json list"
  and route_nodes :: "json list \<Rightarrow> json list"
where
  "all_nodes [] = []"
| "all_nodes (node # flow) =
     node # (case get_prop node ''routes'' of
               Some (JArr routes) \<Rightarrow> route_nodes routes
             | _ \<Rightarrow> [])
     @ all_nodes flow"
| "route_nodes [] = []"
| "route_nodes (route # routes) =
     (case get_prop route ''flow'' of
        Some (JArr routeFlow) \<Rightarrow> all_nodes routeFlow
      | _ \<Rightarrow> [])
     @ route_nodes routes"
  by pat_completeness auto
termination
  by (relation "measure (\<lambda>x. case x of Inl f \<Rightarrow> size_list size f | Inr rs \<Rightarrow> size_list size rs)")
     (auto dest: get_prop_arr_size)

function all_routes :: "json list \<Rightarrow> json list"
  and routes_within :: "json list \<Rightarrow> json list"
where
  "all_routes [] = []"
| "all_routes (node # flow) =
     (case get_prop node ''routes'' of
        Some (JArr routes) \<Rightarrow> routes_within routes
      | _ \<Rightarrow> [])
     @ all_routes flow"
| "routes_within [] = []"
| "routes_within (route # routes) =
     route # (case get_prop route ''flow'' of
                Some (JArr routeFlow) \<Rightarrow> all_routes routeFlow
              | _ \<Rightarrow> [])
     @ routes_within routes"
  by pat_completeness auto
termination
  by (relation "measure (\<lambda>x. case x of Inl f \<Rightarrow> size_list size f | Inr rs \<Rightarrow> size_list size rs)")
     (auto dest: get_prop_arr_size)

section \<open>The structural validator\<close>

text \<open>
  The catalog gateway (\<^verbatim>\<open>db.getModule\<close>) is a parameter: a lookup from a module id to
  its kind and its parameter definitions, of which the validator reads the name and the
  \<^verbatim>\<open>required\<close> flag. \<open>bind_fails\<close> says for which non-string keys the database driver
  raises instead of answering; the validator can reach it only through the module of
  the first node.
\<close>

record module_param =
  pname :: string
  prequired :: bool

record module_schema =
  mtype :: string
  mparameters :: "module_param list"

record catalog =
  getModule :: "string \<Rightarrow> module_schema option"
  bind_fails :: "json \<Rightarrow> bool"

datatype failure = Thrown exn | DriverError

text \<open>
  \<^verbatim>\<open>flowModule.parameters?.[param.name]\<close>, as the read of an own property of an object.
  Where \<^verbatim>\<open>parameters\<close> or \<^verbatim>\<open>mapper\<close> is an array or a string, or the name is one that
  every object inherits, the read of the code also finds inherited members (the catalog
  has parameters named \<^verbatim>\<open>values\<close> and \<^verbatim>\<open>filter\<close>, which every array has), and the
  code takes the parameter for supplied where \<open>hasParam\<close> does not: \<open>hasParam\<close>
  implies the test of the code.
\<close>

definition opt_prop :: "json option \<Rightarrow> string \<Rightarrow> json option" where
  "opt_prop v k = (case v of None \<Rightarrow> None | Some j \<Rightarrow> get_prop j k)"

definition hasParam :: "json \<Rightarrow> string \<Rightarrow> bool" where
  "hasParam flowModule name =
     (opt_prop (get_prop flowModule ''parameters'') name \<noteq> None
      \<or> opt_prop (get_prop flowModule ''mapper'') name \<noteq> None)"

definition has_routes :: "json \<Rightarrow> bool" where
  "has_routes flowModule =
     (case get_prop flowModule ''routes'' of Some (JArr rs) \<Rightarrow> rs \<noteq> [] | _ \<Rightarrow> False)"

fun check_params :: "string \<Rightarrow> string \<Rightarrow> json \<Rightarrow> module_param list \<Rightarrow> string list" where
  "check_params pos m flowModule [] = []"
| \<open>check_params pos m flowModule (param # params) =
     (if prequired param then
        (if m = ''builtin:BasicRouter'' \<and> pname param = ''routes'' then
           (if \<not> has_routes flowModule
            then [pos @ '' ('' @ m @ ''): Router must have a "routes" array with at least one route.'']
            else [])
         else if \<not> hasParam flowModule (pname param)
           then [pos @ '' ('' @ m @ ''): Missing required parameter "'' @ pname param @ ''".'']
           else [])
      else [])
     @ check_params pos m flowModule params\<close>

type_synonym walk = "exn + (string list \<times> string list)"

text \<open>
  A walk yields the errors pushed and the modules validated, in the order of the pushes,
  or the exception that ends the handler. \<open>seq_walk\<close> runs one walk after another: an
  exception in the first ends both.
\<close>

definition seq_walk :: "walk \<Rightarrow> walk \<Rightarrow> walk" where
  "seq_walk w1 w2 =
     (case w1 of
        Inl e \<Rightarrow> Inl e
      | Inr (es, ms) \<Rightarrow> (case w2 of Inl e \<Rightarrow> Inl e | Inr (es', ms') \<Rightarrow> Inr (es @ es', ms @ ms')))"

definition pushed :: "string list \<Rightarrow> string list \<Rightarrow> walk" where
  "pushed es ms = Inr (es, ms)"

text \<open>
  \<open>validateFlow\<close>: \<^verbatim>\<open>route.flow\<close> is read without a guard, so a route that is
  \<^verbatim>\<open>null\<close> raises.
\<close>

function validateFlow :: "catalog \<Rightarrow> json list \<Rightarrow> string \<Rightarrow> nat \<Rightarrow> walk"
  and validateRoutes :: "catalog \<Rightarrow> json list \<Rightarrow> string \<Rightarrow> nat \<Rightarrow> walk"
where
  "validateFlow db [] pathPrefix i = pushed [] []"
| \<open>validateFlow db (flowModule # flow) pathPrefix i =
     (let pos = pos_of pathPrefix i in
      if \<not> is_object flowModule then
        seq_walk (pushed [pos @ '': Each flow item must be an object.''] [])
          (validateFlow db flow pathPrefix (Suc i))
      else
        (case get_prop flowModule ''module'' of
           Some (JStr m) \<Rightarrow>
             if m = [] then
               seq_walk (pushed [pos @ '': Missing or invalid "module" property.''] [])
                 (validateFlow db flow pathPrefix (Suc i))
             else
               (case getModule db m of
                  None \<Rightarrow>
                    seq_walk
                      (pushed [pos @ '': Unknown module "'' @ m @
                                 ''". Use search_modules to find valid IDs.''] [])
                      (validateFlow db flow pathPrefix (Suc i))
                | Some schema \<Rightarrow>
                    seq_walk (pushed (check_params pos m flowModule (mparameters schema)) [m])
                      (seq_walk
                         (case get_prop flowModule ''routes'' of
                            Some (JArr routes) \<Rightarrow> validateRoutes db routes pos 0
                          | _ \<Rightarrow> pushed [] [])
                         (validateFlow db flow pathPrefix (Suc i))))
         | _ \<Rightarrow>
             seq_walk (pushed [pos @ '': Missing or invalid "module" property.''] [])
               (validateFlow db flow pathPrefix (Suc i))))\<close>
| "validateRoutes db [] pos r = pushed [] []"
| "validateRoutes db (route # routes) pos r =
     (if route = JNull then Inl TypeError
      else
        seq_walk
          (case get_prop route ''flow'' of
             Some (JArr routeFlow) \<Rightarrow> validateFlow db routeFlow (route_prefix pos r) 0
           | _ \<Rightarrow> pushed [] [])
          (validateRoutes db routes pos (Suc r)))"
  by pat_completeness auto
termination
  by (relation "measure (\<lambda>x. case x of Inl (_, f, _) \<Rightarrow> size_list size f
                                      | Inr (_, rs, _) \<Rightarrow> size_list size rs)")
     (auto dest: get_prop_arr_size)


text \<open>
  The handler from the parsed blueprint on. Of the report it builds the fields
  \<^verbatim>\<open>valid\<close>, \<^verbatim>\<open>errors\<close> and \<^verbatim>\<open>modulesValidated\<close>; the warnings and the compatibility
  listing are accumulators that no condition reads. \<open>live\<close> is the result of
  \<^verbatim>\<open>fetchLiveModuleIds\<close>, \<open>None\<close> when no API key is configured or the fetch fails.
  Reading \<^verbatim>\<open>parsed.flow\<close> raises when the blueprint is \<^verbatim>\<open>null\<close>.
  \<open>validate_outcome\<close> is what the handler answers.
\<close>

record report =
  valid :: bool
  errors :: "string list"
  modulesValidated :: "string list"

text \<open>The keys of \<^verbatim>\<open>byModule\<close>, a \<^verbatim>\<open>Map\<close>, in insertion order.\<close>

definition map_keys :: "string list \<Rightarrow> string list" where
  "map_keys ms = fold (\<lambda>m acc. if m \<in> set acc then acc else acc @ [m]) ms []"

definition live_error :: "string list \<Rightarrow> string \<Rightarrow> string list" where
  \<open>live_error liveIds moduleId =
     (if moduleId \<in> set liveIds then []
      else
        (case resolveClosestLiveModule moduleId liveIds of
           Some suggestion \<Rightarrow>
             if suggestion \<noteq> [] then
               [''Module "'' @ moduleId @
                ''" is not available in this Make account/region. Suggested replacement: "'' @
                suggestion @ ''".'']
             else [''Module "'' @ moduleId @ ''" is not available in this Make account/region.'']
         | None \<Rightarrow> [''Module "'' @ moduleId @ ''" is not available in this Make account/region.'']))\<close>

definition live_errors :: "string list option \<Rightarrow> json list \<Rightarrow> string list" where
  "live_errors live flow =
     (case live of
        None \<Rightarrow> []
      | Some liveIds \<Rightarrow>
          concat (map (live_error liveIds) (map_keys (map fst (extractAllFlowModules flow ''Flow'' 0)))))"

text \<open>
  The lookup of the first node's module, made for a warning only. A module that is
  truthy but not a string goes to the database driver as it is.
\<close>

definition first_module_lookup_fails :: "catalog \<Rightarrow> json list \<Rightarrow> bool" where
  "first_module_lookup_fails db flow =
     (case flow of
        [] \<Rightarrow> False
      | first # _ \<Rightarrow>
          (case (if first = JNull then None else get_prop first ''module'') of
             None \<Rightarrow> False
           | Some (JStr m) \<Rightarrow> False
           | Some v \<Rightarrow> truthy v \<and> bind_fails db v))"

definition validate_outcome :: "catalog \<Rightarrow> string list option \<Rightarrow> json \<Rightarrow> failure + report" where
  \<open>validate_outcome db live parsed =
     (if parsed = JNull then Inl (Thrown TypeError)
      else
        (case get_prop parsed ''flow'' of
           Some (JArr flow) \<Rightarrow>
             (case validateFlow db flow ''Flow'' 0 of
                Inl e \<Rightarrow> Inl (Thrown e)
              | Inr (es, ms) \<Rightarrow>
                  if first_module_lookup_fails db flow then Inl DriverError
                  else
                    let errs = (if flow = [] then [''Flow array is empty. Add at least one module.'']
                                else [])
                               @ es @ live_errors live flow
                    in Inr \<lparr>valid = (errs = []), errors = errs, modulesValidated = ms\<rparr>)
         | _ \<Rightarrow>
             let errs = [''Blueprint must contain a "flow" array of modules.'']
             in Inr \<lparr>valid = (errs = []), errors = errs, modulesValidated = []\<rparr>))\<close>

subsection \<open>The handler with the tree threaded through\<close>

text \<open>
  The objects of the tree are shared by reference: \<^verbatim>\<open>validateFlow\<close> and
  \<^verbatim>\<open>extractAllFlowModules\<close> are handed \<^verbatim>\<open>parsed.flow\<close> itself, and what they did to a
  node would be seen by the caller. Here every function that is handed an array of the
  tree returns, next to its result, the array as it is when the function returns or
  raises: each element as the loop body leaves it, with the routes of a node and the
  flow of a route as the inner call leaves them, and the elements that the loop has not
  reached as they were. \<open>keep_going\<close> is the end of a loop body: the walk so far has
  raised and the rest of the array is not visited, or the loop goes on.
\<close>

definition keep_going :: "json \<Rightarrow> json list \<Rightarrow> walk \<Rightarrow> json list \<times> walk \<Rightarrow> json list \<times> walk" where
  "keep_going item unvisited w rest =
     (case w of
        Inl e \<Rightarrow> (item # unvisited, Inl e)
      | Inr r \<Rightarrow> (item # fst rest, seq_walk w (snd rest)))"

definition inner :: "json list \<times> 'a \<Rightarrow> json list option \<times> 'a" where
  "inner w = (Some (fst w), snd w)"

text \<open>
  The end of the body for a node of a known module, after the checks \<open>w\<close> and the
  descent \<open>sub\<close> into its routes, and the body for a route after the descent into its
  flow.
\<close>

definition visit_node ::
  "json \<Rightarrow> json list \<Rightarrow> walk \<Rightarrow> json list option \<times> walk \<Rightarrow> json list \<times> walk \<Rightarrow> json list \<times> walk" where
  "visit_node node unvisited w sub rest =
     keep_going (put_back node ''routes'' (fst sub)) unvisited (seq_walk w (snd sub)) rest"

definition visit_route ::
  "json \<Rightarrow> json list \<Rightarrow> json list option \<times> walk \<Rightarrow> json list \<times> walk \<Rightarrow> json list \<times> walk" where
  "visit_route route unvisited sub rest =
     keep_going (put_back route ''flow'' (fst sub)) unvisited (snd sub) rest"

function validateFlow_threaded :: "catalog \<Rightarrow> json list \<Rightarrow> string \<Rightarrow> nat \<Rightarrow> json list \<times> walk"
  and validateRoutes_threaded :: "catalog \<Rightarrow> json list \<Rightarrow> string \<Rightarrow> nat \<Rightarrow> json list \<times> walk"
where
  "validateFlow_threaded db [] pathPrefix i = ([], pushed [] [])"
| \<open>validateFlow_threaded db (flowModule # flow) pathPrefix i =
     (let pos = pos_of pathPrefix i in
      if \<not> is_object flowModule then
        keep_going flowModule flow (pushed [pos @ '': Each flow item must be an object.''] [])
          (validateFlow_threaded db flow pathPrefix (Suc i))
      else
        (case get_prop flowModule ''module'' of
           Some (JStr m) \<Rightarrow>
             if m = [] then
               keep_going flowModule flow
                 (pushed [pos @ '': Missing or invalid "module" property.''] [])
                 (validateFlow_threaded db flow pathPrefix (Suc i))
             else
               (case getModule db m of
                  None \<Rightarrow>
                    keep_going flowModule flow
                      (pushed [pos @ '': Unknown module "'' @ m @
                                 ''". Use search_modules to find valid IDs.''] [])
                      (validateFlow_threaded db flow pathPrefix (Suc i))
                | Some schema \<Rightarrow>
                    visit_node flowModule flow
                      (pushed (check_params pos m flowModule (mparameters schema)) [m])
                      (case get_prop flowModule ''routes'' of
                         Some (JArr routes) \<Rightarrow> inner (validateRoutes_threaded db routes pos 0)
                       | _ \<Rightarrow> (None, pushed [] []))
                      (validateFlow_threaded db flow pathPrefix (Suc i)))
         | _ \<Rightarrow>
             keep_going flowModule flow
               (pushed [pos @ '': Missing or invalid "module" property.''] [])
               (validateFlow_threaded db flow pathPrefix (Suc i))))\<close>
| "validateRoutes_threaded db [] pos r = ([], pushed [] [])"
| "validateRoutes_threaded db (route # routes) pos r =
     (if route = JNull then (route # routes, Inl TypeError)
      else
        visit_route route routes
          (case get_prop route ''flow'' of
             Some (JArr routeFlow) \<Rightarrow>
               inner (validateFlow_threaded db routeFlow (route_prefix pos r) 0)
           | _ \<Rightarrow> (None, pushed [] []))
          (validateRoutes_threaded db routes pos (Suc r)))"
  by pat_completeness auto
termination
  by (relation "measure (\<lambda>x. case x of Inl (_, f, _) \<Rightarrow> size_list size f
                                      | Inr (_, rs, _) \<Rightarrow> size_list size rs)")
     (auto dest: get_prop_arr_size)

text \<open>\<^verbatim>\<open>extractAllFlowModules\<close> in the same way; it does not raise.\<close>

definition skip_item :: "json \<Rightarrow> json list \<times> 'a \<Rightarrow> json list \<times> 'a" where
  "skip_item item rest = (item # fst rest, snd rest)"

definition collect_node ::
  "json \<Rightarrow> 'a list \<Rightarrow> json list option \<times> 'a list \<Rightarrow> json list \<times> 'a list \<Rightarrow> json list \<times> 'a list" where
  "collect_node node here sub rest =
     (put_back node ''routes'' (fst sub) # fst rest, here @ snd sub @ snd rest)"

definition collect_route ::
  "json \<Rightarrow> json list option \<times> 'a list \<Rightarrow> json list \<times> 'a list \<Rightarrow> json list \<times> 'a list" where
  "collect_route route sub rest =
     (put_back route ''flow'' (fst sub) # fst rest, snd sub @ snd rest)"

function extractAllFlowModules_threaded ::
    "json list \<Rightarrow> string \<Rightarrow> nat \<Rightarrow> json list \<times> (string \<times> string) list"
  and extractRoutes_threaded ::
    "json list \<Rightarrow> string \<Rightarrow> nat \<Rightarrow> json list \<times> (string \<times> string) list"
where
  "extractAllFlowModules_threaded [] pathPrefix i = ([], [])"
| "extractAllFlowModules_threaded (node # flow) pathPrefix i =
     (let pos = pos_of pathPrefix i in
      if \<not> is_object node
      then skip_item node (extractAllFlowModules_threaded flow pathPrefix (Suc i))
      else
        collect_node node
          (case get_prop node ''module'' of
             Some (JStr m) \<Rightarrow> if trim_nonempty m then [(m, pos)] else []
           | _ \<Rightarrow> [])
          (case get_prop node ''routes'' of
             Some (JArr routes) \<Rightarrow> inner (extractRoutes_threaded routes pos 0)
           | _ \<Rightarrow> (None, []))
          (extractAllFlowModules_threaded flow pathPrefix (Suc i)))"
| "extractRoutes_threaded [] pos r = ([], [])"
| "extractRoutes_threaded (route # routes) pos r =
     collect_route route
       (case get_prop route ''flow'' of
          Some (JArr routeFlow) \<Rightarrow>
            inner (extractAllFlowModules_threaded routeFlow (route_prefix pos r) 0)
        | _ \<Rightarrow> (None, []))
       (extractRoutes_threaded routes pos (Suc r))"
  by pat_completeness auto
termination
  by (relation "measure (\<lambda>x. case x of Inl (f, _) \<Rightarrow> size_list size f
                                      | Inr (rs, _) \<Rightarrow> size_list size rs)")
     (auto dest: get_prop_arr_size)

text \<open>
  The handler. The first component of the result is \<^verbatim>\<open>parsed\<close> as the handler leaves
  it, whether it answers with a report or fails. The database driver, which may be handed
  the module of the first node, is taken not to modify what it is handed.
\<close>

definition live_errors_of :: "string list option \<Rightarrow> (string \<times> string) list \<Rightarrow> string list" where
  "live_errors_of live allModules =
     (case live of
        None \<Rightarrow> []
      | Some liveIds \<Rightarrow> concat (map (live_error liveIds) (map_keys (map fst allModules))))"

definition validate_scenario ::
  "catalog \<Rightarrow> string list option \<Rightarrow> json \<Rightarrow> json \<times> (failure + report)" where
  \<open>validate_scenario db live parsed =
     (if parsed = JNull then (parsed, Inl (Thrown TypeError))
      else
        (case get_prop parsed ''flow'' of
           Some (JArr flow) \<Rightarrow>
             (case validateFlow_threaded db flow ''Flow'' 0 of
                (flow1, w) \<Rightarrow>
                  (let parsed1 = put_back parsed ''flow'' (Some flow1) in
                   case w of
                     Inl e \<Rightarrow> (parsed1, Inl (Thrown e))
                   | Inr (es, ms) \<Rightarrow>
                       if first_module_lookup_fails db flow1 then (parsed1, Inl DriverError)
                       else
                         (case extractAllFlowModules_threaded flow1 ''Flow'' 0 of
                            (flow2, allModules) \<Rightarrow>
                              let errs = (if flow = []
                                          then [''Flow array is empty. Add at least one module.'']
                                          else [])
                                         @ es @ live_errors_of live allModules
                              in (put_back parsed1 ''flow'' (Some flow2),
                                  Inr \<lparr>valid = (errs = []), errors = errs,
                                       modulesValidated = ms\<rparr>))))
         | _ \<Rightarrow>
             let errs = [''Blueprint must contain a "flow" array of modules.'']
             in (parsed, Inr \<lparr>valid = (errs = []), errors = errs, modulesValidated = []\<rparr>)))\<close>

section \<open>Healing\<close>

subsection \<open>Scheduling nodes\<close>

text \<open>
  The numbers of the code are doubles. A run of decimal digits converts without
  rounding, and a product is computed without rounding, as long as the value is at most
  \<open>2 ^ 53\<close>: there the model has the integer. Beyond, the code has a rounded value or
  \<^verbatim>\<open>Infinity\<close>, which the model does not compute; it answers \<open>Beyond\<close>.
\<close>

definition exact_limit :: int where
  "exact_limit = 2 ^ 53"

datatype double = Exact int | Beyond

text \<open>
  The scheduling configuration: \<^verbatim>\<open>{ type: 'on-demand' }\<close>, or
  \<^verbatim>\<open>{ type: 'indefinitely', interval }\<close>. \<open>Out_of_range\<close> is what the code answers
  for a number of minutes beyond the limit: the default interval when the conversion
  gives \<^verbatim>\<open>Infinity\<close>, a rounded interval otherwise.
\<close>

datatype scheduling = OnDemand | Indefinitely int | Out_of_range

text \<open>
  \<^verbatim>\<open>parseMinutes\<close>: the pattern \<^verbatim>\<open>(\d+)\s*min\<close> matches at the first position where a
  digit starts a run of digits that is followed, after optional white space, by
  \<^verbatim>\<open>min\<close>, and captures that run. \<open>Number_of_digits\<close> is \<^verbatim>\<open>Number\<close> on the run.
\<close>

definition digit_val :: "char \<Rightarrow> int" where
  "digit_val c = int (of_char c) - 48"

definition number_of_digits :: "string \<Rightarrow> int" where
  "number_of_digits ds = foldl (\<lambda>n c. 10 * n + digit_val c) 0 ds"

definition min_follows :: "string \<Rightarrow> bool" where
  "min_follows s = startsWith (dropWhile is_space s) ''min''"

fun minute_match :: "string \<Rightarrow> string option" where
  "minute_match [] = None"
| "minute_match (c # cs) =
     (if is_digit c \<and> min_follows (dropWhile is_digit cs) then Some (c # takeWhile is_digit cs)
      else minute_match cs)"

definition Number_of_digits :: "string \<Rightarrow> double" where
  "Number_of_digits ds =
     (let n = number_of_digits ds in if n \<le> exact_limit then Exact n else Beyond)"

definition parseMinutes :: "string \<Rightarrow> double option" where
  "parseMinutes text' =
     (case minute_match text' of
        None \<Rightarrow> None
      | Some ds \<Rightarrow>
          (case Number_of_digits ds of
             Exact parsed \<Rightarrow> if parsed \<le> 0 then None else Some (Exact parsed)
           | Beyond \<Rightarrow> Some Beyond))"



definition parseSchedulingFromScheduleModule :: "json \<Rightarrow> scheduling" where
  "parseSchedulingFromScheduleModule module' =
     (let intervalValue =
            (if module' = JNull then None
             else (case get_prop module' ''parameters'' of
                     None \<Rightarrow> None
                   | Some ps \<Rightarrow> if ps = JNull then None else get_prop ps ''interval''));
          intervalText = (case intervalValue of Some (JStr t) \<Rightarrow> toLowerCase t | _ \<Rightarrow> [])
      in if str_includes intervalText ''day'' then Indefinitely 86400
         else if str_includes intervalText ''week'' then Indefinitely 604800
         else if str_includes intervalText ''month'' then Indefinitely 2592000
         else if str_includes intervalText ''hour'' then Indefinitely 3600
         else (case parseMinutes intervalText of
                 Some (Exact minutes) \<Rightarrow>
                   if minutes * 60 \<le> exact_limit then Indefinitely (minutes * 60)
                   else Out_of_range
               | Some Beyond \<Rightarrow> Out_of_range
               | None \<Rightarrow> Indefinitely 900))"

definition is_schedule :: "json \<Rightarrow> bool" where
  "is_schedule mod' = (is_object mod' \<and> get_prop mod' ''module'' = Some (JStr ''builtin:Schedule''))"

text \<open>
  \<^verbatim>\<open>normalizeSchedulingModules\<close> filters one flow, the one it is given; the callback's
  two captured variables are the second and third component of the state.
\<close>

definition schedule_step ::
  "json \<Rightarrow> json list \<times> scheduling option \<times> string list
        \<Rightarrow> json list \<times> scheduling option \<times> string list" where
  "schedule_step mod' st =
     (case st of (kept, scheduling, removedModules) \<Rightarrow>
        if is_schedule mod' then
          (kept,
           (if scheduling = None then Some (parseSchedulingFromScheduleModule mod') else scheduling),
           removedModules @ [''builtin:Schedule''])
        else (kept @ [mod'], scheduling, removedModules))"

definition normalizeSchedulingModules ::
  "json list \<Rightarrow> json list \<times> scheduling option \<times> string list" where
  "normalizeSchedulingModules flow = fold schedule_step flow ([], None, [])"


subsection \<open>Designer placeholders and route filters\<close>

text \<open>
  An assignment \<^verbatim>\<open>o.k = v\<close>. The module is an ECMAScript module, hence strict: on a
  primitive the assignment raises. On an array it adds a named property, which
  \<^verbatim>\<open>JSON.stringify\<close> does not write; the tree is taken as it is serialised for the
  deployment request, so the array is unchanged.
\<close>

fun assign :: "json \<Rightarrow> string \<Rightarrow> json \<Rightarrow> exn + json" where
  "assign (JObj kvs) k v = Inr (JObj (set_prop k v kvs))"
| "assign (JArr xs) k v = Inr (JArr xs)"
| "assign _ k v = Inl TypeError"

definition designer_placeholder :: json where
  "designer_placeholder = JObj [(''x'', JNum 0), (''y'', JNum 0)]"

text \<open>The two branches on \<^verbatim>\<open>mod.metadata\<close> of \<^verbatim>\<open>healFlow\<close>, for a node that is an object or an array.\<close>

definition heal_metadata :: "json \<Rightarrow> exn + json" where
  "heal_metadata mod' =
     (case get_prop mod' ''metadata'' of
        None \<Rightarrow> assign mod' ''metadata'' (JObj [(''designer'', designer_placeholder)])
      | Some md \<Rightarrow>
          if \<not> truthy md then assign mod' ''metadata'' (JObj [(''designer'', designer_placeholder)])
          else if \<not> truthy_opt (get_prop md ''designer'') then
            (case assign md ''designer'' designer_placeholder of
               Inl e \<Rightarrow> Inl e
             | Inr md' \<Rightarrow> assign mod' ''metadata'' md')
          else Inr mod')"

text \<open>
  \<^verbatim>\<open>route.filter\<close> is read without a guard. On an object the property is deleted when
  present; on an array the read finds \<^verbatim>\<open>Array.prototype.filter\<close> and the deletion
  removes nothing.
\<close>

definition strip_filter :: "json \<Rightarrow> json" where
  "strip_filter route =
     (case route of
        JObj kvs \<Rightarrow> if map_of kvs ''filter'' \<noteq> None then JObj (del_prop ''filter'' kvs) else route
      | _ \<Rightarrow> route)"

definition heal_node :: "exn + json \<Rightarrow> exn + json list option \<Rightarrow> exn + json list \<Rightarrow> exn + json list" where
  "heal_node this sub rest =
     (case this of
        Inl e \<Rightarrow> Inl e
      | Inr mod1 \<Rightarrow>
          (case sub of
             Inl e \<Rightarrow> Inl e
           | Inr routes' \<Rightarrow>
               (case rest of
                  Inl e \<Rightarrow> Inl e
                | Inr flow' \<Rightarrow> Inr (put_back mod1 ''routes'' routes' # flow'))))"

definition heal_route :: "json \<Rightarrow> exn + json list option \<Rightarrow> exn + json list \<Rightarrow> exn + json list" where
  "heal_route route1 sub rest =
     (case sub of
        Inl e \<Rightarrow> Inl e
      | Inr flow' \<Rightarrow>
          (case rest of
             Inl e \<Rightarrow> Inl e
           | Inr routes' \<Rightarrow> Inr (put_back route1 ''flow'' flow' # routes')))"

definition some_list :: "exn + json list \<Rightarrow> exn + json list option" where
  "some_list r = (case r of Inl e \<Rightarrow> Inl e | Inr xs \<Rightarrow> Inr (Some xs))"

text \<open>
  \<open>healFlow\<close> returns the flow as the loop leaves it, or the exception. The routes of a
  node are read after its metadata is set; setting \<^verbatim>\<open>metadata\<close> does not touch
  \<^verbatim>\<open>routes\<close>, so they are read from the node as given.
\<close>

function healFlow :: "json list \<Rightarrow> exn + json list"
  and healRoutes :: "json list \<Rightarrow> exn + json list"
where
  "healFlow [] = Inr []"
| "healFlow (mod' # flow) =
     (if \<not> is_object mod' then
        (case healFlow flow of Inl e \<Rightarrow> Inl e | Inr flow' \<Rightarrow> Inr (mod' # flow'))
      else
        heal_node (heal_metadata mod')
          (case get_prop mod' ''routes'' of
             Some (JArr routes) \<Rightarrow> some_list (healRoutes routes)
           | _ \<Rightarrow> Inr None)
          (healFlow flow))"
| "healRoutes [] = Inr []"
| "healRoutes (route # routes) =
     (if route = JNull then Inl TypeError
      else
        heal_route (strip_filter route)
          (case get_prop route ''flow'' of
             Some (JArr routeFlow) \<Rightarrow> some_list (healFlow routeFlow)
           | _ \<Rightarrow> Inr None)
          (healRoutes routes))"
  by pat_completeness auto
termination
  by (relation "measure (\<lambda>x. case x of Inl f \<Rightarrow> size_list size f | Inr rs \<Rightarrow> size_list size rs)")
     (auto dest: get_prop_arr_size)


subsection \<open>The in-place updaters\<close>

text \<open>
  \<^verbatim>\<open>injectVerifiedVersions\<close>, \<^verbatim>\<open>replaceModuleIdsInFlow\<close>, \<^verbatim>\<open>stripModuleVersionsInFlow\<close>
  and \<^verbatim>\<open>setModuleVersionInFlow\<close> are the same loop around four different updates of a
  node: skip what is not an object, update the node, and descend into
  \<^verbatim>\<open>route?.flow\<close> for every route when \<^verbatim>\<open>node.routes\<close> is an array. The walker takes the
  update as a parameter; an update returns the properties of the node and what it adds to
  the two counters. None of the updates touches \<^verbatim>\<open>routes\<close>, and arrays have none of the
  properties read, so only objects are updated.
\<close>

type_synonym counters = "nat \<times> nat"
type_synonym node_update = "(string \<times> json) list \<Rightarrow> (string \<times> json) list \<times> counters"

definition add_counters :: "counters \<Rightarrow> counters \<Rightarrow> counters" where
  "add_counters a b = (fst a + fst b, snd a + snd b)"

definition update_node :: "node_update \<Rightarrow> json \<Rightarrow> json \<times> counters" where
  "update_node step node =
     (case node of
        JObj kvs \<Rightarrow> (case step kvs of (kvs', c) \<Rightarrow> (JObj kvs', c))
      | _ \<Rightarrow> (node, (0, 0)))"

definition join_node ::
  "json \<times> counters \<Rightarrow> json list option \<times> counters \<Rightarrow> json list \<times> counters \<Rightarrow> json list \<times> counters" where
  "join_node this sub rest =
     (put_back (fst this) ''routes'' (fst sub) # fst rest,
      add_counters (snd this) (add_counters (snd sub) (snd rest)))"

definition join_route ::
  "json \<Rightarrow> json list option \<times> counters \<Rightarrow> json list \<times> counters \<Rightarrow> json list \<times> counters" where
  "join_route route sub rest =
     (put_back route ''flow'' (fst sub) # fst rest, add_counters (snd sub) (snd rest))"

definition some_walk :: "json list \<times> counters \<Rightarrow> json list option \<times> counters" where
  "some_walk w = (Some (fst w), snd w)"

function walk_nodes :: "node_update \<Rightarrow> json list \<Rightarrow> json list \<times> counters"
  and walk_routes :: "node_update \<Rightarrow> json list \<Rightarrow> json list \<times> counters"
where
  "walk_nodes step [] = ([], (0, 0))"
| "walk_nodes step (node # flow) =
     join_node (update_node step node)
       (case get_prop node ''routes'' of
          Some (JArr routes) \<Rightarrow> some_walk (walk_routes step routes)
        | _ \<Rightarrow> (None, (0, 0)))
       (walk_nodes step flow)"
| "walk_routes step [] = ([], (0, 0))"
| "walk_routes step (route # routes) =
     join_route route
       (case get_prop route ''flow'' of
          Some (JArr routeFlow) \<Rightarrow> some_walk (walk_nodes step routeFlow)
        | _ \<Rightarrow> (None, (0, 0)))
       (walk_routes step routes)"
  by pat_completeness auto
termination
  by (relation "measure (\<lambda>x. case x of Inl (_, f) \<Rightarrow> size_list size f
                                      | Inr (_, rs) \<Rightarrow> size_list size rs)")
     (auto dest: get_prop_arr_size)

text \<open>
  The first counter is \<^verbatim>\<open>injected\<close>, the second \<^verbatim>\<open>stripped\<close>. When the module id
  is the key of an inherited member, \<^verbatim>\<open>knownVersion\<close> is that member, which no parsed
  value is identical to: it is assigned to \<^verbatim>\<open>node.version\<close>. The node is given as it
  is serialised: with the version \<^verbatim>\<open>{}\<close> for the prototype, without a version for a
  method.
\<close>

definition inject_step :: node_update where
  "inject_step kvs =
     (case map_of kvs ''module'' of
        Some (JStr m) \<Rightarrow>
          (case verifiedVersion m of
             Some knownVersion \<Rightarrow>
               if map_of kvs ''version'' \<noteq> Some (JNum knownVersion)
               then (set_prop ''version'' (JNum knownVersion) kvs, (1, 0))
               else (kvs, (0, 0))
           | None \<Rightarrow>
               (case inherited_member m of
                  Some Prototype_object \<Rightarrow> (set_prop ''version'' (JObj []) kvs, (1, 0))
                | Some Method \<Rightarrow> (del_prop ''version'' kvs, (1, 0))
                | None \<Rightarrow>
                    if map_of kvs ''version'' \<noteq> None then (del_prop ''version'' kvs, (0, 1))
                    else (kvs, (0, 0))))
      | _ \<Rightarrow> (kvs, (0, 0)))"

definition injectVerifiedVersions :: "json list \<Rightarrow> json list \<times> counters" where
  "injectVerifiedVersions flow = walk_nodes inject_step flow"

definition replace_step :: "(string \<rightharpoonup> string) \<Rightarrow> node_update" where
  "replace_step replacements kvs =
     (case map_of kvs ''module'' of
        Some (JStr m) \<Rightarrow>
          (case replacements m of
             Some r \<Rightarrow> (set_prop ''module'' (JStr r) kvs, (0, 0))
           | None \<Rightarrow> (kvs, (0, 0)))
      | _ \<Rightarrow> (kvs, (0, 0)))"

definition replaceModuleIdsInFlow :: "json list \<Rightarrow> (string \<rightharpoonup> string) \<Rightarrow> json list" where
  "replaceModuleIdsInFlow flow replacements = fst (walk_nodes (replace_step replacements) flow)"

definition strip_step :: node_update where
  "strip_step kvs =
     (if map_of kvs ''version'' \<noteq> None then (del_prop ''version'' kvs, (1, 0)) else (kvs, (0, 0)))"

definition stripModuleVersionsInFlow :: "json list \<Rightarrow> json list \<times> nat" where
  "stripModuleVersionsInFlow flow = (case walk_nodes strip_step flow of (flow', c) \<Rightarrow> (flow', fst c))"

definition set_version_step :: "string \<Rightarrow> int \<Rightarrow> node_update" where
  "set_version_step moduleId version kvs =
     (if map_of kvs ''module'' = Some (JStr moduleId)
      then (set_prop ''version'' (JNum version) kvs, (1, 0))
      else (kvs, (0, 0)))"

definition setModuleVersionInFlow :: "json list \<Rightarrow> string \<Rightarrow> int \<Rightarrow> json list \<times> nat" where
  "setModuleVersionInFlow flow moduleId version =
     (case walk_nodes (set_version_step moduleId version) flow of (flow', c) \<Rightarrow> (flow', fst c))"

subsection \<open>The healing of a blueprint\<close>

definition default_metadata :: json where
  "default_metadata =
     JObj [(''version'', JNum 1),
           (''scenario'',
              JObj [(''roundtrips'', JNum 1), (''maxErrors'', JNum 3),
                    (''autoCommit'', JBool True), (''autoCommitTriggerLast'', JBool True),
                    (''sequential'', JBool False), (''confidential'', JBool False),
                    (''dataloss'', JBool False), (''dlq'', JBool False),
                    (''freshVariables'', JBool False)]),
           (''designer'', JObj [(''orphans'', JArr [])])]"

definition flow_of :: "json \<Rightarrow> json list option" where
  "flow_of parsed = (case get_prop parsed ''flow'' of Some (JArr flow) \<Rightarrow> Some flow | _ \<Rightarrow> None)"

text \<open>The four steps of \<^verbatim>\<open>create_scenario\<close> between parsing and the compatibility check.\<close>

definition heal_schedule :: "json \<Rightarrow> json \<times> scheduling" where
  "heal_schedule parsed =
     (case flow_of parsed of
        Some flow \<Rightarrow>
          (case normalizeSchedulingModules flow of
             (normalizedFlow, sched, removedModules) \<Rightarrow>
               (put_back parsed ''flow'' (Some normalizedFlow),
                (case sched of Some c \<Rightarrow> c | None \<Rightarrow> OnDemand)))
      | None \<Rightarrow> (parsed, OnDemand))"

definition heal_top_metadata :: "json \<Rightarrow> exn + json" where
  "heal_top_metadata parsed =
     (if \<not> truthy_opt (get_prop parsed ''metadata'') then assign parsed ''metadata'' default_metadata
      else Inr parsed)"

definition heal_designer :: "json \<Rightarrow> exn + json" where
  "heal_designer parsed =
     (case flow_of parsed of
        Some flow \<Rightarrow>
          (case healFlow flow of
             Inl e \<Rightarrow> Inl e
           | Inr flow' \<Rightarrow> Inr (put_back parsed ''flow'' (Some flow')))
      | None \<Rightarrow> Inr parsed)"

definition heal_versions :: "json \<Rightarrow> json" where
  "heal_versions parsed =
     (case flow_of parsed of
        Some flow \<Rightarrow> put_back parsed ''flow'' (Some (fst (injectVerifiedVersions flow)))
      | None \<Rightarrow> parsed)"

definition heal :: "json \<Rightarrow> exn + json \<times> scheduling" where
  "heal parsed =
     (if parsed = JNull then Inl TypeError
      else
        (case heal_schedule parsed of
           (parsed1, schedulingConfig) \<Rightarrow>
             (case heal_top_metadata parsed1 of
                Inl e \<Rightarrow> Inl e
              | Inr parsed2 \<Rightarrow>
                  (case heal_designer parsed2 of
                     Inl e \<Rightarrow> Inl e
                   | Inr parsed3 \<Rightarrow> Inr (heal_versions parsed3, schedulingConfig)))))"


section \<open>The deployment retry loop\<close>

text \<open>
  What the \<^verbatim>\<open>catch\<close> block reads of a failed submission: the HTTP status, whether the
  payload's code is \<^verbatim>\<open>IM007\<close>, and the results of \<^verbatim>\<open>extractIm007ModuleId\<close> and
  \<^verbatim>\<open>extractIm007Version\<close> on the payload (a version, when present, is a positive
  number; it is taken below \<open>2 ^ 53\<close>, where subtracting 1 is exact). The remote platform
  is a parameter of the loop: for an attempt number and the tree submitted it answers
  with a created scenario or a rejection.
\<close>

record fail_info =
  status :: "nat option"
  code_IM007 :: bool
  missingModule :: "string option"
  missingVersion :: "nat option"

datatype response = Created json | Rejected fail_info

text \<open>The four \<^verbatim>\<open>logger.warn\<close> calls that precede a \<^verbatim>\<open>continue\<close>, with their payloads.\<close>

datatype repair =
    VerifiedVersion string int nat
  | Remap string string
  | LowerVersion string nat nat nat
  | StripVersions nat

record failed_module =
  fm_module :: string
  fm_reason :: string
  fm_alternative :: string

record loop_state =
  tree :: json
  attempt :: nat
  strippedVersionsForRetry :: bool
  triedVersionFallbacks :: "string set"
  remappedModules :: "(string \<times> string) list"
  failedModulesOuter :: "failed_module list"
  repairs :: "repair list"

definition maxAttempts :: nat where
  "maxAttempts = 5"

definition verifiedKey :: "string \<Rightarrow> string" where
  "verifiedKey m = m @ ''@verified''"

definition fallbackKey :: "string \<Rightarrow> nat \<Rightarrow> string" where
  "fallbackKey m v = m @ ''@'' @ string_of_nat v"

text \<open>\<^verbatim>\<open>missingModule &&\<close> : present and not the empty string.\<close>

definition named_module :: "fail_info \<Rightarrow> string option" where
  "named_module err = (case missingModule err of Some m \<Rightarrow> if m \<noteq> [] then Some m else None | None \<Rightarrow> None)"

definition put_flow :: "loop_state \<Rightarrow> json list \<Rightarrow> loop_state" where
  "put_flow st flow = st\<lparr>tree := put_back (tree st) ''flow'' (Some flow)\<rparr>"

text \<open>
  A strategy ends the \<^verbatim>\<open>catch\<close> block with \<^verbatim>\<open>continue\<close> or \<^verbatim>\<open>throw\<close>, or falls
  through to the next one, in each case with the state as it has left it.
\<close>

datatype step = Continue loop_state | Throw loop_state | Next loop_state

definition strategy1 :: "fail_info \<Rightarrow> loop_state \<Rightarrow> step" where
  "strategy1 err st =
     (case (named_module err, flow_of (tree st)) of
        (Some m, Some flow) \<Rightarrow>
          if status err = Some 400 \<and> code_IM007 err \<and> attempt st < maxAttempts then
            (case verifiedVersion m of
               Some v \<Rightarrow>
                 if verifiedKey m \<notin> triedVersionFallbacks st then
                   (case setModuleVersionInFlow flow m v of
                      (flow', updated) \<Rightarrow>
                        if updated > 0 then
                          Continue ((put_flow st flow')
                            \<lparr>triedVersionFallbacks := insert (verifiedKey m) (triedVersionFallbacks st),
                             repairs := repairs st @ [VerifiedVersion m v updated]\<rparr>)
                        else Next (put_flow st flow'))
                 else Next st
             | None \<Rightarrow> Next st)
          else Next st
      | _ \<Rightarrow> Next st)"

definition strategy2 :: "fail_info \<Rightarrow> loop_state \<Rightarrow> step" where
  "strategy2 err st =
     (case named_module err of
        Some m \<Rightarrow>
          if status err = Some 400 \<and> code_IM007 err then
            (case getProblematicModuleInfo m of
               Some problemInfo \<Rightarrow>
                 Throw (st\<lparr>failedModulesOuter := failedModulesOuter st @
                         [\<lparr>fm_module = m, fm_reason = reason problemInfo,
                           fm_alternative = alternative problemInfo\<rparr>]\<rparr>)
             | None \<Rightarrow> Next st)
          else Next st
      | None \<Rightarrow> Next st)"

definition strategy3 :: "string list option \<Rightarrow> fail_info \<Rightarrow> loop_state \<Rightarrow> step" where
  "strategy3 live err st =
     (case (named_module err, live) of
        (Some m, Some liveIds) \<Rightarrow>
          if status err = Some 400 \<and> attempt st < maxAttempts then
            (case (resolveClosestLiveModule m liveIds, flow_of (tree st)) of
               (Some replacement, Some flow) \<Rightarrow>
                 if replacement \<noteq> [] \<and> replacement \<noteq> m then
                   Continue ((put_flow st (replaceModuleIdsInFlow flow [m \<mapsto> replacement]))
                     \<lparr>remappedModules := remappedModules st @ [(m, replacement)],
                      repairs := repairs st @ [Remap m replacement]\<rparr>)
                 else Next st
             | _ \<Rightarrow> Next st)
          else Next st
      | _ \<Rightarrow> Next st)"

definition strategy4 :: "fail_info \<Rightarrow> loop_state \<Rightarrow> step" where
  "strategy4 err st =
     (case (named_module err, missingVersion err, flow_of (tree st)) of
        (Some m, Some mv, Some flow) \<Rightarrow>
          if status err = Some 400 \<and> code_IM007 err \<and> mv > 1 \<and> attempt st < maxAttempts then
            (let fallbackVersion = mv - 1 in
             if fallbackKey m fallbackVersion \<notin> triedVersionFallbacks st then
               (case setModuleVersionInFlow flow m (int fallbackVersion) of
                  (flow', updated) \<Rightarrow>
                    if updated > 0 then
                      Continue ((put_flow st flow')
                        \<lparr>triedVersionFallbacks :=
                           insert (fallbackKey m fallbackVersion) (triedVersionFallbacks st),
                         repairs := repairs st @ [LowerVersion m mv fallbackVersion updated]\<rparr>)
                    else Next (put_flow st flow'))
             else Next st)
          else Next st
      | _ \<Rightarrow> Next st)"

definition strategy5 :: "fail_info \<Rightarrow> loop_state \<Rightarrow> step" where
  "strategy5 err st =
     (case flow_of (tree st) of
        Some flow \<Rightarrow>
          if status err = Some 400 \<and> attempt st < maxAttempts \<and> \<not> strippedVersionsForRetry st
             \<and> code_IM007 err then
            (case stripModuleVersionsInFlow flow of
               (flow', stripped) \<Rightarrow>
                 if stripped > 0 then
                   Continue ((put_flow st flow')
                     \<lparr>strippedVersionsForRetry := True,
                      repairs := repairs st @ [StripVersions stripped]\<rparr>)
                 else Next (put_flow st flow'))
          else Next st
      | None \<Rightarrow> Next st)"

definition and_then :: "step \<Rightarrow> (loop_state \<Rightarrow> step) \<Rightarrow> step" where
  "and_then s f = (case s of Next st \<Rightarrow> f st | _ \<Rightarrow> s)"

text \<open>The \<^verbatim>\<open>catch\<close> block: the five strategies in order, then \<^verbatim>\<open>throw error\<close>.\<close>

definition on_failure :: "string list option \<Rightarrow> fail_info \<Rightarrow> loop_state \<Rightarrow> step" where
  "on_failure live err st =
     and_then (and_then (and_then (and_then (and_then (strategy1 err st)
       (strategy2 err)) (strategy3 live err)) (strategy4 err)) (strategy5 err)) Throw"

lemma strategy1_attempt: "strategy1 err st = Continue st' \<Longrightarrow> attempt st' = attempt st"
  and strategy1_attempt_next: "strategy1 err st = Next st' \<Longrightarrow> attempt st' = attempt st"
  by (auto simp: strategy1_def put_flow_def split: option.splits if_splits prod.splits)

lemma strategy2_attempt: "strategy2 err st = Continue st' \<Longrightarrow> attempt st' = attempt st"
  and strategy2_attempt_next: "strategy2 err st = Next st' \<Longrightarrow> attempt st' = attempt st"
  by (auto simp: strategy2_def split: option.splits if_splits)

lemma strategy3_attempt: "strategy3 live err st = Continue st' \<Longrightarrow> attempt st' = attempt st"
  and strategy3_attempt_next: "strategy3 live err st = Next st' \<Longrightarrow> attempt st' = attempt st"
  by (auto simp: strategy3_def put_flow_def split: option.splits if_splits prod.splits)

lemma strategy4_attempt: "strategy4 err st = Continue st' \<Longrightarrow> attempt st' = attempt st"
  and strategy4_attempt_next: "strategy4 err st = Next st' \<Longrightarrow> attempt st' = attempt st"
  by (auto simp: strategy4_def put_flow_def Let_def split: option.splits if_splits prod.splits)

lemma strategy5_attempt: "strategy5 err st = Continue st' \<Longrightarrow> attempt st' = attempt st"
  and strategy5_attempt_next: "strategy5 err st = Next st' \<Longrightarrow> attempt st' = attempt st"
  by (auto simp: strategy5_def put_flow_def split: option.splits if_splits prod.splits)

lemma and_then_Continue:
  "and_then s f = Continue st' \<Longrightarrow>
     s = Continue st' \<or> (\<exists>st1. s = Next st1 \<and> f st1 = Continue st')"
  by (cases s) (auto simp: and_then_def)

lemma and_then_Next:
  "and_then s f = Next st' \<Longrightarrow> (\<exists>st1. s = Next st1 \<and> f st1 = Next st')"
  by (cases s) (auto simp: and_then_def)

lemma on_failure_attempt:
  assumes "on_failure live err st = Continue st'"
  shows "attempt st' = attempt st"
proof -
  note c = strategy1_attempt strategy2_attempt strategy3_attempt strategy4_attempt strategy5_attempt
  note n = strategy1_attempt_next strategy2_attempt_next strategy3_attempt_next
    strategy4_attempt_next strategy5_attempt_next
  from assms show ?thesis
    unfolding on_failure_def
    by (auto dest!: and_then_Continue and_then_Next c n)
qed

text \<open>
  The \<^verbatim>\<open>while\<close> loop. It ends with the response, with the error thrown, or, when the
  condition fails before any response, with no response.
\<close>

datatype outcome = Succeeded json | Failed fail_info | NoResponse

function retry_loop ::
  "string list option \<Rightarrow> (nat \<Rightarrow> json \<Rightarrow> response) \<Rightarrow> loop_state \<Rightarrow> outcome \<times> loop_state" where
  "retry_loop live post st =
     (if attempt st < maxAttempts then
        (case post (Suc (attempt st)) (tree st) of
           Created r \<Rightarrow> (Succeeded r, st\<lparr>attempt := Suc (attempt st)\<rparr>)
         | Rejected err \<Rightarrow>
             (case on_failure live err (st\<lparr>attempt := Suc (attempt st)\<rparr>) of
                Continue st' \<Rightarrow> retry_loop live post st'
              | Throw st' \<Rightarrow> (Failed err, st')
              | Next st' \<Rightarrow> (Failed err, st')))
      else (NoResponse, st))"
  by pat_completeness auto
termination
  by (relation "measure (\<lambda>(live, post, st). maxAttempts - attempt st)")
     (auto dest!: on_failure_attempt)

declare retry_loop.simps [simp del]

definition init_state :: "json \<Rightarrow> (string \<times> string) list \<Rightarrow> loop_state" where
  "init_state parsed remapped =
     \<lparr>tree = parsed, attempt = 0, strippedVersionsForRetry = False,
      triedVersionFallbacks = {}, remappedModules = remapped,
      failedModulesOuter = [], repairs = []\<rparr>"

text \<open>
  The compatibility check between healing and the loop: every module id of the tree
  that the live catalog lacks is replaced by its resolved substitute, and the handler
  gives up when one has none.
\<close>

definition remap_plan :: "string list \<Rightarrow> string list \<Rightarrow> (string \<times> string) list \<times> string list" where
  "remap_plan liveIds byModule =
     fold (\<lambda>moduleId (replacements, unavailable).
             if moduleId \<in> set liveIds then (replacements, unavailable)
             else (case resolveClosestLiveModule moduleId liveIds of
                     Some replacement \<Rightarrow>
                       if replacement \<noteq> [] \<and> replacement \<noteq> moduleId
                       then (replacements @ [(moduleId, replacement)], unavailable)
                       else (replacements, unavailable @ [moduleId])
                   | None \<Rightarrow> (replacements, unavailable @ [moduleId])))
          byModule ([], [])"

definition remap_live :: "string list option \<Rightarrow> json \<Rightarrow> string list + json \<times> (string \<times> string) list" where
  "remap_live live parsed =
     (case (live, flow_of parsed) of
        (Some liveIds, Some flow) \<Rightarrow>
          (case remap_plan liveIds (map_keys (map fst (extractAllFlowModules flow ''Flow'' 0))) of
             (replacements, unavailable) \<Rightarrow>
               let parsed' = (if replacements \<noteq> []
                              then put_back parsed ''flow''
                                     (Some (replaceModuleIdsInFlow flow (map_of replacements)))
                              else parsed)
               in if unavailable \<noteq> [] then Inl unavailable else Inr (parsed', replacements))
      | _ \<Rightarrow> Inr (parsed, []))"

text \<open>
  The handler from the parsed blueprint on. The loop starts from the healed tree as it is
  serialised; where a module id is the name of an inherited method, the tree in memory
  has that function as the version of the node, which the loop would count as a version
  to strip. The properties of the loop are proved for every tree it may start from.
\<close>

datatype deployment =
    HealRaised exn
  | Unavailable "string list"
  | Attempted outcome loop_state

definition create_scenario ::
  "string list option \<Rightarrow> (nat \<Rightarrow> json \<Rightarrow> response) \<Rightarrow> json \<Rightarrow> deployment" where
  "create_scenario live post parsed =
     (case heal parsed of
        Inl e \<Rightarrow> HealRaised e
      | Inr (healed, schedulingConfig) \<Rightarrow>
          (case remap_live live healed of
             Inl unavailable \<Rightarrow> Unavailable unavailable
           | Inr (parsed', remapped) \<Rightarrow>
               (case retry_loop live post (init_state parsed' remapped) of
                  (out, st) \<Rightarrow> Attempted out st)))"

text \<open>
  What the log of repairs says about each strategy: the modules whose verified version was
  forced, the (module, version) pairs forced by the decrement, and the strippings.
\<close>

fun verified_forced :: "repair \<Rightarrow> string list" where
  "verified_forced (VerifiedVersion m v u) = [m]"
| "verified_forced _ = []"

fun lowered_to :: "repair \<Rightarrow> (string \<times> nat) list" where
  "lowered_to (LowerVersion m mv fv u) = [(m, fv)]"
| "lowered_to _ = []"

fun strips :: "repair \<Rightarrow> nat list" where
  "strips (StripVersions n) = [n]"
| "strips _ = []"

definition once_each :: "loop_state \<Rightarrow> bool" where
  "once_each st =
     (distinct (concat (map verified_forced (repairs st)))
      \<and> (\<forall>m \<in> set (concat (map verified_forced (repairs st))). verifiedKey m \<in> triedVersionFallbacks st)
      \<and> distinct (concat (map lowered_to (repairs st)))
      \<and> (\<forall>(m, fv) \<in> set (concat (map lowered_to (repairs st))). fallbackKey m fv \<in> triedVersionFallbacks st)
      \<and> length (concat (map strips (repairs st))) \<le> 1
      \<and> (concat (map strips (repairs st)) \<noteq> [] \<longrightarrow> strippedVersionsForRetry st))"

definition same_books :: "loop_state \<Rightarrow> loop_state \<Rightarrow> bool" where
  "same_books st st' =
     (repairs st' = repairs st \<and> triedVersionFallbacks st' = triedVersionFallbacks st
      \<and> strippedVersionsForRetry st' = strippedVersionsForRetry st \<and> attempt st' = attempt st)"

definition one_more :: "loop_state \<Rightarrow> loop_state \<Rightarrow> bool" where
  "one_more st st' =
     ((once_each st \<longrightarrow> once_each st') \<and> length (repairs st') = Suc (length (repairs st))
      \<and> attempt st' = attempt st \<and> attempt st < maxAttempts)"

section \<open>Well-formed blueprints\<close>




section \<open>Predicates on healed trees\<close>

text \<open>
  The array stored under a key, if there is one; the walkers descend exactly where it
  is defined for \<^verbatim>\<open>routes\<close> and \<^verbatim>\<open>flow\<close>.
\<close>

definition arr_prop :: "json \<Rightarrow> string \<Rightarrow> json list option" where
  "arr_prop j k = (case get_prop j k of Some (JArr xs) \<Rightarrow> Some xs | _ \<Rightarrow> None)"

text \<open>
  A node on which \<open>heal_metadata\<close> has nothing left to do: an array, or an object
  whose \<^verbatim>\<open>metadata\<close> is truthy and has a truthy \<^verbatim>\<open>designer\<close> or is an array. A
  route on which \<open>healRoutes\<close> has nothing left to do is not \<^verbatim>\<open>null\<close> and has no
  \<^verbatim>\<open>filter\<close>.
\<close>

definition md_ok :: "json \<Rightarrow> bool" where
  "md_ok m =
     (case m of
        JObj kvs \<Rightarrow>
          (case map_of kvs ''metadata'' of
             None \<Rightarrow> False
           | Some md \<Rightarrow> truthy md \<and> (truthy_opt (get_prop md ''designer'') \<or> (\<exists>xs. md = JArr xs)))
      | _ \<Rightarrow> True)"

definition node_healed :: "json \<Rightarrow> bool" where
  "node_healed n = (\<not> is_object n \<or> md_ok n)"

definition route_ok :: "json \<Rightarrow> bool" where
  "route_ok r = (r \<noteq> JNull \<and> strip_filter r = r)"

definition flow_healed :: "json list \<Rightarrow> bool" where
  "flow_healed f = (list_all node_healed (all_nodes f) \<and> list_all route_ok (all_routes f))"

definition routes_healed :: "json list \<Rightarrow> bool" where
  "routes_healed rs = (list_all node_healed (route_nodes rs) \<and> list_all route_ok (routes_within rs))"

text \<open>The same for the metadata of the blueprint.\<close>

definition top_ok :: "json \<Rightarrow> bool" where
  "top_ok p = (is_object p \<and> ((\<exists>xs. p = JArr xs) \<or> truthy_opt (get_prop p ''metadata'')))"

text \<open>
  A node on which \<open>inject_step\<close> has nothing left to do: it has the known-good version
  when its module has an entry, the version \<^verbatim>\<open>{}\<close> when its module is
  \<^verbatim>\<open>__proto__\<close>, and no version when its module is any other string.
\<close>

definition version_reconciled :: "json \<Rightarrow> bool" where
  "version_reconciled node =
     (case get_prop node ''module'' of
        Some (JStr m) \<Rightarrow>
          (case verifiedVersion m of
             Some knownVersion \<Rightarrow> get_prop node ''version'' = Some (JNum knownVersion)
           | None \<Rightarrow>
               if inherited_member m = Some Prototype_object
               then get_prop node ''version'' = Some (JObj [])
               else get_prop node ''version'' = None)
      | _ \<Rightarrow> True)"

text \<open>What makes a node a scheduling node or not: being an object, and its module.\<close>

definition node_kind :: "json \<Rightarrow> bool \<times> json option" where
  "node_kind n = (is_object n, get_prop n ''module'')"

text \<open>An update of a node that leaves the property \<open>k\<close> as it is.\<close>

definition keeps :: "node_update \<Rightarrow> string \<Rightarrow> bool" where
  "keeps step k = (\<forall>kvs. map_of (fst (step kvs)) k = map_of kvs k)"

section \<open>Example inputs\<close>

text \<open>
  Three entries of the catalog that \<^verbatim>\<open>scrape-modules.ts\<close> builds, and a database driver
  that answers every lookup. The blueprint has a webhook followed by a router whose id
  is misspelled; the route of the router holds a node with an unknown id.
\<close>

definition example_catalog :: catalog where
  "example_catalog =
     \<lparr>getModule = map_of
        [(''gateway:CustomWebHook'',
            \<lparr>mtype = ''trigger'',
             mparameters = [\<lparr>pname = ''name'', prequired = True\<rparr>,
                            \<lparr>pname = ''dataStructure'', prequired = False\<rparr>]\<rparr>),
         (''http:ActionGetFile'',
            \<lparr>mtype = ''action'',
             mparameters = [\<lparr>pname = ''url'', prequired = True\<rparr>,
                            \<lparr>pname = ''shareDrive'', prequired = False\<rparr>]\<rparr>),
         (''builtin:BasicRouter'',
            \<lparr>mtype = ''action'',
             mparameters = [\<lparr>pname = ''routes'', prequired = True\<rparr>]\<rparr>)],
      bind_fails = (\<lambda>v. False)\<rparr>"

definition misspelled_router_blueprint :: json where
  "misspelled_router_blueprint =
     JObj [(''flow'', JArr
       [JObj [(''id'', JNum 1), (''module'', JStr ''gateway:CustomWebHook''),
              (''parameters'', JObj [(''name'', JStr ''x'')])],
        JObj [(''id'', JNum 2), (''module'', JStr ''builtin:BasicRoutr''),
              (''routes'', JArr
                 [JObj [(''flow'', JArr
                    [JObj [(''id'', JNum 3), (''module'', JStr ''nonexistent:Module'')]])]])]])]"

text \<open>A platform that rejects every submission, naming a module of the denylist.\<close>

definition denylist_server :: "nat \<Rightarrow> json \<Rightarrow> response" where
  "denylist_server n t =
     Rejected \<lparr>status = Some 400, code_IM007 = True,
               missingModule = Some ''openai:ActionCreateCompletion'', missingVersion = None\<rparr>"

definition openai_blueprint :: json where
  "openai_blueprint =
     JObj [(''flow'', JArr [JObj [(''module'', JStr ''openai:ActionCreateCompletion'')]])]"

text \<open>
  A platform that twice reports the same module as missing, at version 4 and then at
  version 3, and accepts the third submission.
\<close>

definition acme_blueprint :: json where
  "acme_blueprint = JObj [(''flow'', JArr [JObj [(''module'', JStr ''acme:DoThing'')]])]"

definition lowering_server :: "nat \<Rightarrow> json \<Rightarrow> response" where
  "lowering_server n t =
     (if n < 3 then
        Rejected \<lparr>status = Some 400, code_IM007 = True,
                  missingModule = Some ''acme:DoThing'', missingVersion = Some (5 - n)\<rparr>
      else Created JNull)"





text \<open>
  A blueprint with a node whose module id is \<^verbatim>\<open>__proto__\<close> and which pins a version,
  and what healing makes of it.
\<close>

definition inherited_key_blueprint :: json where
  "inherited_key_blueprint =
     JObj [(''name'', JStr ''Hook''),
           (''flow'', JArr
       [JObj [(''id'', JNum 1), (''module'', JStr ''gateway:CustomWebHook''),
              (''parameters'', JObj [(''name'', JStr ''x'')])],
        JObj [(''id'', JNum 2), (''module'', JStr ''__proto__''), (''version'', JNum 2)]])]"

definition healed_inherited_key_flow :: "json list" where
  "healed_inherited_key_flow =
     [JObj [(''id'', JNum 1), (''module'', JStr ''gateway:CustomWebHook''),
            (''parameters'', JObj [(''name'', JStr ''x'')]),
            (''metadata'', JObj [(''designer'', JObj [(''x'', JNum 0), (''y'', JNum 0)])]),
            (''version'', JNum 1)],
      JObj [(''id'', JNum 2), (''module'', JStr ''__proto__''), (''version'', JObj []),
            (''metadata'', JObj [(''designer'', JObj [(''x'', JNum 0), (''y'', JNum 0)])])]]"

definition healed_inherited_key :: json where
  "healed_inherited_key =
     JObj [(''name'', JStr ''Hook''),
           (''flow'', JArr healed_inherited_key_flow),
           (''metadata'', default_metadata)]"









section \<open>Properties of the resolver\<close>

lemma fold_best_step_mem:
  "fold (best_step tt) cs b = Some (x, s) \<Longrightarrow> x \<in> set cs \<or> b = Some (x, s)"
proof (induction cs arbitrary: b)
  case Nil
  then show ?case by simp
next
  case (Cons c cs)
  from Cons.prems have "fold (best_step tt) cs (best_step tt c b) = Some (x, s)" by simp
  from Cons.IH [OF this] show ?case
    by (auto simp: best_step_def Let_def split: option.splits prod.splits if_splits)
qed

lemma token_overlap_stage_mem:
  "token_overlap_stage m live = Some r \<Longrightarrow> r \<in> set live"
  unfolding token_overlap_stage_def Let_def
  by (auto split: list.splits if_splits option.splits prod.splits dest!: fold_best_step_mem)

text \<open>
  Claim C9. Whatever the module id and the live catalog, a suggestion returned by
  \<open>resolveClosestLiveModule\<close> is a member of the catalog it was given: the resolver
  answers \<^verbatim>\<open>null\<close> or a known-good id, never a made-up one.
\<close>

theorem resolveClosestLiveModule_member:
  "resolveClosestLiveModule moduleId liveIds = Some r \<Longrightarrow> r \<in> set liveIds"
proof (cases "moduleId \<in> set liveIds")
  case True
  assume "resolveClosestLiveModule moduleId liveIds = Some r"
  with True show ?thesis by (simp add: resolveClosestLiveModule_def)
next
  case False
  assume r: "resolveClosestLiveModule moduleId liveIds = Some r"
  let ?ex = "filter (\<lambda>liveId. normalizeModuleId liveId = normalizeModuleId moduleId) liveIds"
  show ?thesis
  proof (cases "\<exists>x. ?ex = [x]")
    case True
    then obtain x where x: "?ex = [x]" by blast
    with False r have "r = x" by (simp add: resolveClosestLiveModule_def)
    moreover have "x \<in> set ?ex" using x by simp
    ultimately show ?thesis by simp
  next
    case none: False
    with False r have "token_overlap_stage moduleId liveIds = Some r"
      by (auto simp: resolveClosestLiveModule_def Let_def split: list.splits)
    then show ?thesis by (rule token_overlap_stage_mem)
  qed
qed

theorem resolveClosestLiveModule_member_witness:
  "resolveClosestLiveModule ''http:ActionSendInfo''
     [''http:ActionGetFile'', ''http:ActionSendData'', ''slack:ActionPostMessage'']
     = Some ''http:ActionSendData''
   \<and> ''http:ActionSendData''
       \<in> set [''http:ActionGetFile'', ''http:ActionSendData'', ''slack:ActionPostMessage'']"
proof -
  have r: "resolveClosestLiveModule ''http:ActionSendInfo''
     [''http:ActionGetFile'', ''http:ActionSendData'', ''slack:ActionPostMessage'']
     = Some ''http:ActionSendData''"
    by code_simp
  from resolveClosestLiveModule_member [OF r] r show ?thesis by blast
qed


section \<open>Properties of the retry loop\<close>

lemma verified_keys_not_problematic:
  "\<forall>m \<in> set (map fst VERIFIED_MODULE_VERSIONS). getProblematicModuleInfo m = None"
  by code_simp

lemma verified_not_problematic:
  "verifiedVersion m = Some v \<Longrightarrow> getProblematicModuleInfo m = None"
proof -
  assume "verifiedVersion m = Some v"
  then have "m \<in> set (map fst VERIFIED_MODULE_VERSIONS)"
    by (auto simp: verifiedVersion_def dest!: map_of_SomeD intro: rev_image_eqI)
  with verified_keys_not_problematic show ?thesis by blast
qed

lemma problematic_nonempty: "getProblematicModuleInfo m = Some info \<Longrightarrow> m \<noteq> []"
  by (rule ccontr) (simp add: getProblematicModuleInfo_def PROBLEMATIC_MODULES_def)

lemma denylisted_on_failure:
  assumes "status err = Some 400" "code_IM007 err" "missingModule err = Some m"
    and "getProblematicModuleInfo m = Some info"
  shows "on_failure live err st =
     Throw (st\<lparr>failedModulesOuter := failedModulesOuter st @
       [\<lparr>fm_module = m, fm_reason = reason info, fm_alternative = alternative info\<rparr>]\<rparr>)"
proof -
  have nm: "named_module err = Some m"
    using assms problematic_nonempty by (simp add: named_module_def)
  have nv: "verifiedVersion m = None"
    using assms(4) verified_not_problematic by (cases "verifiedVersion m") auto
  have s1: "strategy1 err st = Next st"
    using nm nv by (simp add: strategy1_def split: option.splits)
  have s2: "strategy2 err st = Throw (st\<lparr>failedModulesOuter := failedModulesOuter st @
       [\<lparr>fm_module = m, fm_reason = reason info, fm_alternative = alternative info\<rparr>]\<rparr>)"
    using nm assms by (simp add: strategy2_def)
  show ?thesis by (simp add: on_failure_def and_then_def s1 s2)
qed

text \<open>
  Claim C4. When a submission is rejected with status 400 and code IM007 and the module
  named is in the denylist, the loop ends at once with the failure: the attempt counter
  is one more than before and no repair is logged. At the first submission this is a
  failure after exactly one attempt. No repair has priority over the denylist here,
  because no module of the denylist has an entry in the version registry.
\<close>

theorem denylisted_module_aborts:
  assumes "attempt st < maxAttempts"
    and "post (Suc (attempt st)) (tree st) = Rejected err"
    and "status err = Some 400" and "code_IM007 err" and "missingModule err = Some m"
    and "getProblematicModuleInfo m = Some info"
  shows "fst (retry_loop live post st) = Failed err
       \<and> attempt (snd (retry_loop live post st)) = Suc (attempt st)
       \<and> repairs (snd (retry_loop live post st)) = repairs st"
  using assms(1,2) denylisted_on_failure [OF assms(3-6)]
  by (simp add: retry_loop.simps [of live post st])

theorem denylisted_module_aborts_witness:
  "fst (retry_loop None denylist_server (init_state openai_blueprint [])) =
      Failed \<lparr>status = Some 400, code_IM007 = True,
               missingModule = Some ''openai:ActionCreateCompletion'', missingVersion = None\<rparr>
   \<and> attempt (snd (retry_loop None denylist_server (init_state openai_blueprint []))) = 1"
proof -
  let ?err = "\<lparr>status = Some 400, code_IM007 = True,
               missingModule = Some ''openai:ActionCreateCompletion'', missingVersion = None\<rparr>"
  have a: "attempt (init_state openai_blueprint []) < maxAttempts"
    by (simp add: init_state_def maxAttempts_def)
  have p: "denylist_server (Suc (attempt (init_state openai_blueprint [])))
             (tree (init_state openai_blueprint [])) = Rejected ?err"
    by (simp add: denylist_server_def)
  have h: "status ?err = Some 400" "code_IM007 ?err"
    "missingModule ?err = Some ''openai:ActionCreateCompletion''"
    by simp_all
  have "getProblematicModuleInfo ''openai:ActionCreateCompletion'' \<noteq> None"
    by code_simp
  then obtain info where g: "getProblematicModuleInfo ''openai:ActionCreateCompletion'' = Some info"
    by blast
  from denylisted_module_aborts
    [where st = "init_state openai_blueprint []" and post = denylist_server and live = None,
     OF a p h g]
  show ?thesis by (simp add: init_state_def)
qed

lemma same_books_refl: "same_books st st"
  by (simp add: same_books_def)

lemma same_books_trans: "same_books a b \<Longrightarrow> same_books b c \<Longrightarrow> same_books a c"
  by (simp add: same_books_def)

lemma once_each_same: "same_books st st' \<Longrightarrow> once_each st \<Longrightarrow> once_each st'"
  by (simp add: same_books_def once_each_def)

lemma one_more_same: "same_books a b \<Longrightarrow> one_more b c \<Longrightarrow> one_more a c"
  by (auto simp: same_books_def one_more_def once_each_def)

lemma strategy1_next: "strategy1 err st = Next st' \<Longrightarrow> same_books st st'"
  by (auto simp: strategy1_def put_flow_def same_books_def split: option.splits if_splits prod.splits)

lemma strategy1_throw: "strategy1 err st \<noteq> Throw st'"
  by (auto simp: strategy1_def put_flow_def split: option.splits if_splits prod.splits)

lemma strategy1_continue: "strategy1 err st = Continue st' \<Longrightarrow> one_more st st'"
  by (auto simp: strategy1_def put_flow_def one_more_def once_each_def
      split: option.splits if_splits prod.splits)

lemma strategy2_next: "strategy2 err st = Next st' \<Longrightarrow> same_books st st'"
  by (auto simp: strategy2_def same_books_def split: option.splits if_splits)

lemma strategy2_throw: "strategy2 err st = Throw st' \<Longrightarrow> same_books st st'"
  by (auto simp: strategy2_def same_books_def split: option.splits if_splits)

lemma strategy2_continue: "strategy2 err st \<noteq> Continue st'"
  by (auto simp: strategy2_def split: option.splits if_splits)

lemma strategy3_next: "strategy3 live err st = Next st' \<Longrightarrow> same_books st st'"
  by (auto simp: strategy3_def put_flow_def same_books_def split: option.splits if_splits prod.splits)

lemma strategy3_throw: "strategy3 live err st \<noteq> Throw st'"
  by (auto simp: strategy3_def put_flow_def split: option.splits if_splits prod.splits)

lemma strategy3_continue: "strategy3 live err st = Continue st' \<Longrightarrow> one_more st st'"
  by (auto simp: strategy3_def put_flow_def one_more_def once_each_def
      split: option.splits if_splits prod.splits)

lemma strategy4_next: "strategy4 err st = Next st' \<Longrightarrow> same_books st st'"
  by (auto simp: strategy4_def put_flow_def same_books_def Let_def
      split: option.splits if_splits prod.splits)

lemma strategy4_throw: "strategy4 err st \<noteq> Throw st'"
  by (auto simp: strategy4_def put_flow_def Let_def split: option.splits if_splits prod.splits)

lemma strategy4_continue: "strategy4 err st = Continue st' \<Longrightarrow> one_more st st'"
  by (auto simp: strategy4_def put_flow_def one_more_def once_each_def Let_def
      split: option.splits if_splits prod.splits)

lemma strategy5_next: "strategy5 err st = Next st' \<Longrightarrow> same_books st st'"
  by (auto simp: strategy5_def put_flow_def same_books_def split: option.splits if_splits prod.splits)

lemma strategy5_throw: "strategy5 err st \<noteq> Throw st'"
  by (auto simp: strategy5_def put_flow_def split: option.splits if_splits prod.splits)

lemma strategy5_continue: "strategy5 err st = Continue st' \<Longrightarrow> one_more st st'"
  by (auto simp: strategy5_def put_flow_def one_more_def once_each_def
      split: option.splits if_splits prod.splits)


lemma on_failure_continue:
  assumes "on_failure live err st = Continue st'"
  shows "one_more st st'"
proof -
  note n = strategy1_next strategy2_next strategy3_next strategy4_next strategy5_next
  note c = strategy1_continue strategy3_continue strategy4_continue strategy5_continue
  from assms show ?thesis
    unfolding on_failure_def
    by (auto dest!: and_then_Continue and_then_Next n c simp: strategy2_continue
        intro: one_more_same same_books_trans)
qed

lemma and_then_Throw:
  "and_then s f = Throw st' \<Longrightarrow>
     s = Throw st' \<or> (\<exists>st1. s = Next st1 \<and> f st1 = Throw st')"
  by (cases s) (auto simp: and_then_def)

lemma on_failure_throw:
  assumes "on_failure live err st = Throw st'"
  shows "same_books st st'"
proof -
  note n = strategy1_next strategy2_next strategy3_next strategy4_next strategy5_next
  note t = strategy1_throw strategy3_throw strategy4_throw strategy5_throw
  from assms show ?thesis
    unfolding on_failure_def
    by (auto dest!: and_then_Throw and_then_Next n strategy2_throw simp: t same_books_def)
qed

lemma on_failure_not_next: "on_failure live err st \<noteq> Next st'"
  unfolding on_failure_def and_then_def by (auto split: step.splits)

lemma retry_loop_books:
  "once_each st \<Longrightarrow> length (repairs st) = attempt st \<Longrightarrow> attempt st < maxAttempts \<Longrightarrow>
   retry_loop live post st = (out, st') \<Longrightarrow>
   once_each st' \<and> attempt st' = Suc (length (repairs st')) \<and> attempt st' \<le> maxAttempts
     \<and> out \<noteq> NoResponse"
proof (induction live post st rule: retry_loop.induct)
  case (1 live post st)
  let ?st1 = "st\<lparr>attempt := Suc (attempt st)\<rparr>"
  have o1: "once_each ?st1" using "1.prems"(1) by (simp add: once_each_def)
  show ?case
  proof (cases "post (Suc (attempt st)) (tree st)")
    case (Created r)
    with "1.prems" have "out = Succeeded r" "st' = ?st1"
      by (simp_all add: retry_loop.simps [of live post st])
    with o1 "1.prems" show ?thesis by simp
  next
    case (Rejected err)
    show ?thesis
    proof (cases "on_failure live err ?st1")
      case (Continue st2)
      from on_failure_continue [OF Continue] o1 "1.prems"(2)
      have o2: "once_each st2" and l2: "length (repairs st2) = attempt st2"
        and a2: "attempt st2 < maxAttempts"
        by (auto simp: one_more_def)
      from "1.prems"(3,4) Rejected Continue have "retry_loop live post st2 = (out, st')"
        by (simp add: retry_loop.simps [of live post st])
      from "1.IH" [OF "1.prems"(3) Rejected Continue o2 l2 a2 this] show ?thesis .
    next
      case (Throw st2)
      from "1.prems"(3,4) Rejected Throw have r: "out = Failed err" "st' = st2"
        by (simp_all add: retry_loop.simps [of live post st])
      from on_failure_throw [OF Throw] have sb: "same_books ?st1 st2" .
      with o1 have "once_each st2" by (rule once_each_same [rotated])
      with sb r "1.prems" show ?thesis by (simp add: same_books_def)
    next
      case (Next st2)
      with on_failure_not_next show ?thesis by blast
    qed
  qed
qed

text \<open>
  Claim C3, as amended. From the state in which \<open>create_scenario\<close> enters it, the loop
  makes between one and five submissions and ends with a response or with the error
  thrown; every submission but the last is followed by exactly one repair. The verified
  version is forced at most once per module, the lower version at most once per pair of
  module and version, and the versions are stripped at most once.
\<close>

theorem retry_loop_bounded:
  "(case retry_loop live post (init_state parsed remapped) of
      (out, st) \<Rightarrow>
        1 \<le> attempt st \<and> attempt st \<le> 5 \<and> out \<noteq> NoResponse
        \<and> attempt st = Suc (length (repairs st))
        \<and> distinct (concat (map verified_forced (repairs st)))
        \<and> distinct (concat (map lowered_to (repairs st)))
        \<and> length (concat (map strips (repairs st))) \<le> 1)"
proof -
  obtain out st where r: "retry_loop live post (init_state parsed remapped) = (out, st)"
    by (cases "retry_loop live post (init_state parsed remapped)")
  have "once_each (init_state parsed remapped)"
    by (simp add: once_each_def init_state_def)
  moreover have "length (repairs (init_state parsed remapped)) = attempt (init_state parsed remapped)"
    by (simp add: init_state_def)
  moreover have "attempt (init_state parsed remapped) < maxAttempts"
    by (simp add: init_state_def maxAttempts_def)
  ultimately have "once_each st \<and> attempt st = Suc (length (repairs st))
      \<and> attempt st \<le> maxAttempts \<and> out \<noteq> NoResponse"
    using r by (rule retry_loop_books)
  then show ?thesis
    unfolding r by (simp add: once_each_def maxAttempts_def)
qed

theorem retry_loop_bounded_witness:
  "attempt (snd (retry_loop None lowering_server (init_state acme_blueprint []))) \<le> 5
   \<and> fst (retry_loop None lowering_server (init_state acme_blueprint [])) \<noteq> NoResponse"
  using retry_loop_bounded [of None lowering_server acme_blueprint "[]"]
  by (simp add: split_beta)

text \<open>
  Claim C3 as stated fails: against the second example platform the lower version is
  forced twice for the same module, once per version reported.
\<close>

theorem lower_version_twice:
  "repairs (snd (retry_loop None lowering_server (init_state acme_blueprint [])))
     = [LowerVersion ''acme:DoThing'' 4 3 1, LowerVersion ''acme:DoThing'' 3 2 1]"
  by code_simp


section \<open>The token-overlap stage\<close>

lemma fold_best_first_max:
  "cs \<noteq> [] \<Longrightarrow>
   \<exists>i<length cs. fold (best_step tt) cs None = Some (cs ! i, score_of tt (cs ! i))
      \<and> (\<forall>j<length cs. score_of tt (cs ! j) \<le> score_of tt (cs ! i))
      \<and> (\<forall>j<i. score_of tt (cs ! j) < score_of tt (cs ! i))"
proof (induction cs rule: rev_induct)
  case Nil
  then show ?case by simp
next
  case (snoc c cs)
  show ?case
  proof (cases "cs = []")
    case True
    then show ?thesis by (simp add: best_step_def)
  next
    case False
    from snoc.IH [OF False] obtain i where i: "i < length cs"
      and f: "fold (best_step tt) cs None = Some (cs ! i, score_of tt (cs ! i))"
      and mx: "\<forall>j<length cs. score_of tt (cs ! j) \<le> score_of tt (cs ! i)"
      and fst: "\<forall>j<i. score_of tt (cs ! j) < score_of tt (cs ! i)"
      by blast
    show ?thesis
    proof (cases "score_of tt c > score_of tt (cs ! i)")
      case True
      have "fold (best_step tt) (cs @ [c]) None = Some (c, score_of tt c)"
        using f True by (simp add: best_step_def)
      moreover have "\<forall>j<length (cs @ [c]). score_of tt ((cs @ [c]) ! j) \<le> score_of tt c"
        using mx True by (fastforce simp: nth_append less_Suc_eq)
      moreover have "\<forall>j<length cs. score_of tt ((cs @ [c]) ! j) < score_of tt c"
        using mx True by (fastforce simp: nth_append)
      ultimately show ?thesis
        by (intro exI [of _ "length cs"]) (simp add: nth_append)
    next
      case least: False
      have "fold (best_step tt) (cs @ [c]) None = Some (cs ! i, score_of tt (cs ! i))"
        using f least by (simp add: best_step_def)
      moreover have "\<forall>j<length (cs @ [c]). score_of tt ((cs @ [c]) ! j) \<le> score_of tt (cs ! i)"
        using mx least by (auto simp: nth_append less_Suc_eq)
      moreover have "\<forall>j<i. score_of tt ((cs @ [c]) ! j) < score_of tt (cs ! i)"
        using fst i by (auto simp: nth_append)
      ultimately show ?thesis
        using i by (intro exI [of _ i]) (simp add: nth_append)
    qed
  qed
qed

lemma overlap_distinct:
  "distinct ct \<Longrightarrow> length (filter (\<lambda>t. t \<in> set tt) ct) = card (set tt \<inter> set ct)"
proof -
  assume d: "distinct ct"
  then have "distinct (filter (\<lambda>t. t \<in> set tt) ct)" by simp
  then have "length (filter (\<lambda>t. t \<in> set tt) ct) = card (set (filter (\<lambda>t. t \<in> set tt) ct))"
    by (rule distinct_card [symmetric])
  also have "set (filter (\<lambda>t. t \<in> set tt) ct) = set tt \<inter> set ct" by auto
  finally show ?thesis .
qed

text \<open>
  Claim C5, as amended. Let the exact and the normalized match fail for a target id
  \<open>namespace:identifier\<close>, and let the candidates be the catalog ids that start with the
  namespace and a colon, in catalog order. The score of a candidate is the number of its
  tokens, counted with repetition, that are tokens of the target, over the number of
  distinct target tokens (over 1 when there is none); when the candidate's tokens are
  pairwise distinct and the target has a token, this is the size of the intersection
  over the size of the target's token set. The resolver returns a candidate exactly when
  it is the first one of highest score and that score is at least one half; otherwise
  it returns no suggestion.
\<close>

theorem token_overlap_first_best:
  assumes "moduleId \<notin> set liveIds"
    and "\<not> (\<exists>x. filter (\<lambda>liveId. normalizeModuleId liveId = normalizeModuleId moduleId) liveIds = [x])"
    and "split_on CHR '':'' moduleId = appPart # modulePart # rest"
    and "appPart \<noteq> []" and "modulePart \<noteq> []"
    and "targetTokens = tokenizeModulePart modulePart"
    and "candidates = filter (\<lambda>i. startsWith i (appPart @ '':'')) liveIds"
  shows "(resolveClosestLiveModule moduleId liveIds = Some b \<longleftrightarrow>
           (\<exists>i<length candidates. candidates ! i = b
              \<and> 1 / 2 \<le> score_of targetTokens b
              \<and> (\<forall>j<length candidates. score_of targetTokens (candidates ! j) \<le> score_of targetTokens b)
              \<and> (\<forall>j<i. score_of targetTokens (candidates ! j) < score_of targetTokens b)))
       \<and> score_of targetTokens c =
           of_nat (length (filter (\<lambda>t. t \<in> set targetTokens) (candidate_tokens c)))
             / of_nat (max (card (set targetTokens)) 1)
       \<and> (distinct (candidate_tokens c) \<and> targetTokens \<noteq> [] \<longrightarrow>
            score_of targetTokens c = spec_score targetTokens (candidate_tokens c))"
proof -
  let ?sc = "score_of targetTokens"
  have stage: "resolveClosestLiveModule moduleId liveIds = token_overlap_stage moduleId liveIds"
    using assms(1,2) by (auto simp: resolveClosestLiveModule_def Let_def split: list.splits)
  have res: "token_overlap_stage moduleId liveIds =
      (if candidates = [] then None
       else (case fold (best_step targetTokens) candidates None of
               None \<Rightarrow> None
             | Some (b, s) \<Rightarrow> if s < 1 / 2 then None else Some b))"
    using assms(3-7) by (simp add: token_overlap_stage_def Let_def)
  have iff: "token_overlap_stage moduleId liveIds = Some b \<longleftrightarrow>
           (\<exists>i<length candidates. candidates ! i = b
              \<and> 1 / 2 \<le> ?sc b
              \<and> (\<forall>j<length candidates. ?sc (candidates ! j) \<le> ?sc b)
              \<and> (\<forall>j<i. ?sc (candidates ! j) < ?sc b))" (is "?L \<longleftrightarrow> ?R")
  proof (cases "candidates = []")
    case True
    then show ?thesis by (simp add: res)
  next
    case False
    from fold_best_first_max [OF False, of targetTokens] obtain i where i: "i < length candidates"
      and f: "fold (best_step targetTokens) candidates None = Some (candidates ! i, ?sc (candidates ! i))"
      and mx: "\<forall>j<length candidates. ?sc (candidates ! j) \<le> ?sc (candidates ! i)"
      and fst: "\<forall>j<i. ?sc (candidates ! j) < ?sc (candidates ! i)"
      by blast
    have val: "token_overlap_stage moduleId liveIds =
        (if ?sc (candidates ! i) < 1 / 2 then None else Some (candidates ! i))"
      using False f by (simp add: res)
    show ?thesis
    proof
      assume ?L
      with val have "b = candidates ! i" "1 / 2 \<le> ?sc (candidates ! i)"
        by (auto split: if_splits)
      with i mx fst show ?R by blast
    next
      assume ?R
      then obtain k where k: "k < length candidates" "candidates ! k = b" "1 / 2 \<le> ?sc b"
        and kmx: "\<forall>j<length candidates. ?sc (candidates ! j) \<le> ?sc b"
        and kfst: "\<forall>j<k. ?sc (candidates ! j) < ?sc b"
        by blast
      have "k = i"
      proof (rule ccontr)
        assume "k \<noteq> i"
        then consider "k < i" | "i < k" by linarith
        then show False
        proof cases
          case 1
          with fst k(2) have "?sc b < ?sc (candidates ! i)" by blast
          moreover from kmx i have "?sc (candidates ! i) \<le> ?sc b" by blast
          ultimately show False by simp
        next
          case 2
          with kfst have "?sc (candidates ! i) < ?sc b" by blast
          moreover from mx k(1,2) have "?sc b \<le> ?sc (candidates ! i)" by blast
          ultimately show False by simp
        qed
      qed
      with k val show ?L by auto
    qed
  qed
  have sc: "?sc c = of_nat (length (filter (\<lambda>t. t \<in> set targetTokens) (candidate_tokens c)))
             / of_nat (max (card (set targetTokens)) 1)"
    by (simp add: score_of_def Let_def)
  have sp: "distinct (candidate_tokens c) \<and> targetTokens \<noteq> [] \<longrightarrow>
            ?sc c = spec_score targetTokens (candidate_tokens c)"
  proof
    assume a: "distinct (candidate_tokens c) \<and> targetTokens \<noteq> []"
    then have "card (set targetTokens) \<noteq> 0" by simp
    then have "max (card (set targetTokens)) 1 = card (set targetTokens)" by linarith
    with a show "?sc c = spec_score targetTokens (candidate_tokens c)"
      by (simp add: sc spec_score_def overlap_distinct)
  qed
  from stage iff sc sp show ?thesis by simp
qed


theorem token_overlap_first_best_witness:
  "score_of (tokenizeModulePart ''ActionSendInfo'') ''http:ActionSendData''
     = spec_score (tokenizeModulePart ''ActionSendInfo'') (candidate_tokens ''http:ActionSendData'')
   \<and> score_of (tokenizeModulePart ''ActionSendInfo'') ''http:ActionSendData'' = 2 / 3"
proof -
  let ?live = "[''http:ActionGetFile'', ''http:ActionSendData'', ''slack:ActionPostMessage'']"
  have h1: "''http:ActionSendInfo'' \<notin> set ?live" by simp
  have "filter (\<lambda>liveId. normalizeModuleId liveId = normalizeModuleId ''http:ActionSendInfo'') ?live = []"
    by code_simp
  then have h2: "\<not> (\<exists>x. filter (\<lambda>liveId. normalizeModuleId liveId
                     = normalizeModuleId ''http:ActionSendInfo'') ?live = [x])"
    by simp
  have h3: "split_on CHR '':'' ''http:ActionSendInfo'' = ''http'' # ''ActionSendInfo'' # []"
    by code_simp
  have h4: "''http'' \<noteq> []" and h5: "''ActionSendInfo'' \<noteq> []" by simp_all
  have d: "distinct (candidate_tokens ''http:ActionSendData'')
           \<and> tokenizeModulePart ''ActionSendInfo'' \<noteq> []"
    by code_simp
  have v: "score_of (tokenizeModulePart ''ActionSendInfo'') ''http:ActionSendData'' = 2 / 3"
    by code_simp
  from token_overlap_first_best [OF h1 h2 h3 h4 h5 refl refl, of "''http:ActionSendData''" "''http:ActionSendData''"] d v
  show ?thesis by blast
qed

text \<open>
  Claim C5 as stated fails: \<open>AlphaAlpha\<close> shares one token of three with
  \<open>AlphaBetaGamma\<close>, a third by the formula of the claim, but the token occurs twice
  in the candidate and the resolver scores it two thirds and returns it.
\<close>

theorem repeated_token_scores_higher:
  "resolveClosestLiveModule ''app:AlphaBetaGamma'' [''app:AlphaAlpha''] = Some ''app:AlphaAlpha''
   \<and> spec_score (tokenizeModulePart ''AlphaBetaGamma'') (candidate_tokens ''app:AlphaAlpha'') = 1 / 3
   \<and> score_of (tokenizeModulePart ''AlphaBetaGamma'') ''app:AlphaAlpha'' = 2 / 3"
  by code_simp


section \<open>Properties of the validator\<close>

text \<open>
  Claim C2, on the code. The validator leaves a node whose module is unknown with
  \<^verbatim>\<open>continue\<close>, before the descent into its routes. In the example the unknown id
  inside the route of the misspelled router is reported in no error, although
  \<open>extractAllFlowModules\<close>, which the same handler runs over the same flow, reaches it.
\<close>

theorem nested_unknown_module_unreported:
  \<open>validate_outcome example_catalog None misspelled_router_blueprint =
     Inr \<lparr>valid = False,
          errors = [''Flow[1]: Unknown module "builtin:BasicRoutr". Use search_modules to find valid IDs.''],
          modulesValidated = [''gateway:CustomWebHook'']\<rparr>
   \<and> \<not> str_includes ''Flow[1]: Unknown module "builtin:BasicRoutr". Use search_modules to find valid IDs.''
          ''nonexistent:Module''
   \<and> map fst (extractAllFlowModules (the (flow_of misspelled_router_blueprint)) ''Flow'' 0) =
       [''gateway:CustomWebHook'', ''builtin:BasicRoutr'', ''nonexistent:Module'']\<close>
  by code_simp


section \<open>Properties of healing\<close>

subsection \<open>Reading and writing properties\<close>

lemma put_back_None [simp]: "put_back j k None = j"
  by (simp add: put_back_def)

lemma get_prop_put_back_other [simp]:
  "k' \<noteq> k \<Longrightarrow> get_prop (put_back j k r) k' = get_prop j k'"
  by (cases r; cases j) (simp_all add: put_back_def set_prop_def update_conv')

lemma get_prop_put_back_same:
  "get_prop j k = Some v \<Longrightarrow> get_prop (put_back j k (Some xs)) k = Some (JArr xs)"
  by (cases j) (simp_all add: put_back_def set_prop_def update_conv')

lemma put_back_same:
  "get_prop j k = Some (JArr xs) \<Longrightarrow> put_back j k (Some xs) = j"
  by (cases j) (simp_all add: put_back_def set_prop_def update_triv)

lemma is_object_put_back [simp]: "is_object (put_back j k r) = is_object j"
  by (cases r; cases j) (simp_all add: put_back_def)

lemma put_back_JNull [simp]: "(put_back j k r = JNull) = (j = JNull)"
  by (cases r; cases j) (simp_all add: put_back_def)

lemma get_prop_Some_obj: "get_prop j k = Some v \<Longrightarrow> \<exists>kvs. j = JObj kvs"
  by (cases j) simp_all

lemma assign_obj: "is_object j \<Longrightarrow> \<exists>j'. assign j k v = Inr j' \<and> is_object j'
    \<and> (\<forall>k'. k' \<noteq> k \<longrightarrow> get_prop j' k' = get_prop j k')
    \<and> (\<forall>kvs. j = JObj kvs \<longrightarrow> j' = JObj (set_prop k v kvs))
    \<and> (\<forall>xs. j = JArr xs \<longrightarrow> j' = j)"
  by (cases j) (simp_all add: set_prop_def update_conv')



lemma md_ok_put_back [simp]: "k \<noteq> ''metadata'' \<Longrightarrow> md_ok (put_back m k r) = md_ok m"
  by (cases r; cases m) (simp_all add: md_ok_def put_back_def set_prop_def update_conv')

lemma case_arr_prop:
  "(case get_prop j k of Some (JArr xs) \<Rightarrow> f xs | _ \<Rightarrow> d)
     = (case arr_prop j k of Some xs \<Rightarrow> f xs | None \<Rightarrow> d)"
  by (auto simp: arr_prop_def split: option.splits json.splits)

lemma arr_prop_Some: "arr_prop j k = Some xs \<longleftrightarrow> get_prop j k = Some (JArr xs)"
  by (auto simp: arr_prop_def split: option.splits json.splits)

lemma arr_prop_put_back_other [simp]:
  "k' \<noteq> k \<Longrightarrow> arr_prop (put_back j k r) k' = arr_prop j k'"
  by (simp add: arr_prop_def)

lemma arr_prop_put_back_same [simp]:
  "arr_prop j k = Some ys \<Longrightarrow> arr_prop (put_back j k (Some xs)) k = Some xs"
  by (simp add: arr_prop_def get_prop_put_back_same split: option.splits json.splits)

lemma put_back_arr_same: "arr_prop j k = Some xs \<Longrightarrow> put_back j k (Some xs) = j"
  by (simp add: arr_prop_Some put_back_same)

lemma flow_of_arr_prop: "flow_of j = arr_prop j ''flow''"
  by (simp add: flow_of_def arr_prop_def)

lemma flow_induct [case_names Nil_flow Cons_flow Nil_routes Cons_routes]:
  assumes "P []"
    and "\<And>n flow. (\<And>rs. arr_prop n ''routes'' = Some rs \<Longrightarrow> Q rs) \<Longrightarrow> P flow \<Longrightarrow> P (n # flow)"
    and "Q []"
    and "\<And>r rs. (\<And>f. arr_prop r ''flow'' = Some f \<Longrightarrow> P f) \<Longrightarrow> Q rs \<Longrightarrow> Q (r # rs)"
  shows "P flow" and "Q routes"
proof (induction flow and routes rule: all_nodes_route_nodes.induct)
  case 1
  show ?case by (rule assms(1))
next
  case (2 node flow)
  show ?case
  proof (rule assms(2))
    fix rs assume "arr_prop node ''routes'' = Some rs"
    then have "get_prop node ''routes'' = Some (JArr rs)" by (simp add: arr_prop_Some)
    then show "Q rs" by (rule "2.IH"(1)) simp
  qed (rule "2.IH"(2))
next
  case 3
  show ?case by (rule assms(3))
next
  case (4 route routes)
  show ?case
  proof (rule assms(4))
    fix f assume "arr_prop route ''flow'' = Some f"
    then have "get_prop route ''flow'' = Some (JArr f)" by (simp add: arr_prop_Some)
    then show "P f" by (rule "4.IH"(1)) simp
  qed (rule "4.IH"(2))
qed

lemmas all_nodes_Cons = all_nodes.simps(2) [unfolded case_arr_prop]
lemmas route_nodes_Cons = route_nodes.simps(2) [unfolded case_arr_prop]
lemmas walk_nodes_Cons = walk_nodes.simps(2) [unfolded case_arr_prop]
lemmas walk_routes_Cons = walk_routes.simps(2) [unfolded case_arr_prop]



declare all_nodes.simps(2) [simp del] route_nodes.simps(2) [simp del]
  all_routes.simps(2) [simp del] routes_within.simps(2) [simp del]
  healFlow.simps(2) [simp del] healRoutes.simps(2) [simp del]
  walk_nodes.simps(2) [simp del] walk_routes.simps(2) [simp del]

lemma flow_healed_Nil [simp]: "flow_healed []" and routes_healed_Nil [simp]: "routes_healed []"
  by (simp_all add: flow_healed_def routes_healed_def)






lemma strip_filter_props:
  "(strip_filter r = JNull) = (r = JNull)"
  "strip_filter (strip_filter r) = strip_filter r"
  "k \<noteq> ''filter'' \<Longrightarrow> get_prop (strip_filter r) k = get_prop r k"
  by (cases r; simp add: strip_filter_def del_prop_def delete_conv' delete_idem)+

lemma arr_prop_strip_filter [simp]: "arr_prop (strip_filter r) ''flow'' = arr_prop r ''flow''"
  by (simp add: arr_prop_def strip_filter_props)







lemma node_healed_put_back [simp]: "node_healed (put_back n ''routes'' r) = node_healed n"
  by (simp add: node_healed_def)




lemma keeps_inject: "k \<noteq> ''version'' \<Longrightarrow> keeps inject_step k"
  by (auto simp: keeps_def inject_step_def set_prop_def del_prop_def update_conv' delete_conv'
      split: option.splits json.splits inherited.splits)

lemma is_object_update_node [simp]: "is_object (fst (update_node step n)) = is_object n"
  by (cases n) (simp_all add: update_node_def split: prod.splits)

lemma update_node_JNull [simp]: "(fst (update_node step n) = JNull) = (n = JNull)"
  by (cases n) (simp_all add: update_node_def split: prod.splits)

lemma keepsD: "keeps step k \<Longrightarrow> step kvs = (kvs', c) \<Longrightarrow> map_of kvs' k = map_of kvs k"
  by (metis fst_conv keeps_def)

lemma get_prop_update_node:
  "keeps step k \<Longrightarrow> get_prop (fst (update_node step n)) k = get_prop n k"
  by (cases n) (auto simp: update_node_def split: prod.splits dest: keepsD)

lemma fst_walk_nodes_Cons:
  "fst (walk_nodes step (n # flow)) =
     put_back (fst (update_node step n)) ''routes''
       (map_option (\<lambda>rs. fst (walk_routes step rs)) (arr_prop n ''routes''))
     # fst (walk_nodes step flow)"
  by (simp add: walk_nodes_Cons join_node_def some_walk_def split: option.splits)

lemma fst_walk_routes_Cons:
  "fst (walk_routes step (r # rs)) =
     put_back r ''flow'' (map_option (\<lambda>f. fst (walk_nodes step f)) (arr_prop r ''flow''))
     # fst (walk_routes step rs)"
  by (simp add: walk_routes_Cons join_route_def some_walk_def split: option.splits)

lemma arr_prop_put_back_map:
  "arr_prop j' k = arr_prop j k \<Longrightarrow>
   arr_prop (put_back j' k (map_option g (arr_prop j k))) k = map_option g (arr_prop j k)"
  by (cases "arr_prop j k") simp_all

lemma arr_prop_update_node:
  "keeps step k \<Longrightarrow> arr_prop (fst (update_node step n)) k = arr_prop n k"
  by (simp add: arr_prop_def get_prop_update_node)

lemma walked_node_routes:
  "keeps step ''routes'' \<Longrightarrow>
   arr_prop (put_back (fst (update_node step n)) ''routes''
       (map_option g (arr_prop n ''routes''))) ''routes'' = map_option g (arr_prop n ''routes'')"
  by (rule arr_prop_put_back_map) (rule arr_prop_update_node)

lemma walked_route_flow:
  "arr_prop (put_back r ''flow'' (map_option g (arr_prop r ''flow''))) ''flow''
     = map_option g (arr_prop r ''flow'')"
  by (rule arr_prop_put_back_map) simp



lemma version_reconciled_inject:
  "version_reconciled (fst (update_node inject_step n))"
  by (cases n)
     (auto simp: version_reconciled_def update_node_def inject_step_def set_prop_def del_prop_def
        update_conv' delete_conv'
        split: option.splits json.splits prod.splits inherited.splits)

lemma version_reconciled_put_back [simp]:
  "version_reconciled (put_back n ''routes'' r) = version_reconciled n"
  by (simp add: version_reconciled_def split: option.splits json.splits)


lemma inject_reconciles:
  "list_all version_reconciled (all_nodes (fst (walk_nodes inject_step flow)))"
  "list_all version_reconciled (route_nodes (fst (walk_routes inject_step routes)))"
proof (induction flow and routes rule: flow_induct)
  case Nil_flow
  show ?case by simp
next
  case (Cons_flow n flow)
  have "keeps inject_step ''routes''" by (simp add: keeps_inject)
  note w = walked_node_routes [OF this]
  show ?case using Cons_flow.IH
    by (auto simp: fst_walk_nodes_Cons all_nodes_Cons w version_reconciled_inject split: option.splits)
next
  case Nil_routes
  show ?case by simp
next
  case (Cons_routes r rs)
  show ?case using Cons_routes.IH
    by (auto simp: fst_walk_routes_Cons route_nodes_Cons walked_route_flow split: option.splits)
qed

lemma inject_keeps_modules:
  "map (\<lambda>n. get_prop n ''module'') (all_nodes (fst (walk_nodes inject_step flow)))
     = map (\<lambda>n. get_prop n ''module'') (all_nodes flow)"
  "map (\<lambda>n. get_prop n ''module'') (route_nodes (fst (walk_routes inject_step routes)))
     = map (\<lambda>n. get_prop n ''module'') (route_nodes routes)"
proof (induction flow and routes rule: flow_induct)
  case Nil_flow
  show ?case by simp
next
  case (Cons_flow n flow)
  have "keeps inject_step ''routes''" by (simp add: keeps_inject)
  note w = walked_node_routes [OF this]
  have "keeps inject_step ''module''" by (simp add: keeps_inject)
  note m = get_prop_update_node [OF this]
  show ?case using Cons_flow.IH
    by (auto simp: fst_walk_nodes_Cons all_nodes_Cons w m split: option.splits)
next
  case Nil_routes
  show ?case by simp
next
  case (Cons_routes r rs)
  show ?case using Cons_routes.IH
    by (auto simp: fst_walk_routes_Cons route_nodes_Cons walked_route_flow split: option.splits)
qed


lemma schedule_step_apply:
  "schedule_step n (kept, sch, rem) =
     (if is_schedule n then
        (kept, (if sch = None then Some (parseSchedulingFromScheduleModule n) else sch),
         rem @ [''builtin:Schedule''])
      else (kept @ [n], sch, rem))"
  by (simp add: schedule_step_def)

lemma fold_schedule_step:
  "fold schedule_step flow (kept, sch, rem) =
     (kept @ filter (\<lambda>n. \<not> is_schedule n) flow,
      (case sch of
         Some c \<Rightarrow> Some c
       | None \<Rightarrow> (case filter is_schedule flow of
                    [] \<Rightarrow> None
                  | m # _ \<Rightarrow> Some (parseSchedulingFromScheduleModule m))),
      rem @ replicate (length (filter is_schedule flow)) ''builtin:Schedule'')"
proof (induction flow arbitrary: kept sch rem)
  case Nil
  show ?case by (simp split: option.splits)
next
  case (Cons n flow)
  show ?case
    by (cases sch) (simp_all add: schedule_step_apply Cons.IH)
qed

lemma normalizeSchedulingModules_eq:
  "normalizeSchedulingModules flow =
     (filter (\<lambda>n. \<not> is_schedule n) flow,
      (case filter is_schedule flow of
         [] \<Rightarrow> None
       | m # _ \<Rightarrow> Some (parseSchedulingFromScheduleModule m)),
      replicate (length (filter is_schedule flow)) ''builtin:Schedule'')"
  by (simp add: normalizeSchedulingModules_def fold_schedule_step)




lemma heal_top_metadata_ok:
  "heal_top_metadata p = Inr p' \<Longrightarrow> top_ok p' \<and> arr_prop p' ''flow'' = arr_prop p ''flow''"
  by (cases p)
     (auto simp: heal_top_metadata_def top_ok_def truthy_opt_def set_prop_def update_conv'
        default_metadata_def arr_prop_def split: if_splits option.splits)


lemma top_ok_put_back [simp]: "top_ok (put_back p ''flow'' r) = top_ok p"
  by (cases r; cases p) (simp_all add: top_ok_def put_back_def set_prop_def update_conv')

lemma heal_schedule_flow:
  "arr_prop (fst (heal_schedule p)) ''flow''
     = map_option (filter (\<lambda>n. \<not> is_schedule n)) (arr_prop p ''flow'')"
  by (cases "arr_prop p ''flow''")
     (simp_all add: heal_schedule_def flow_of_arr_prop normalizeSchedulingModules_eq)




lemma heal_flow_shape:
  assumes "heal parsed = Inr (healed, schedulingConfig)" and "arr_prop parsed ''flow'' = Some flow"
  shows "\<exists>hf. healFlow (filter (\<lambda>n. \<not> is_schedule n) flow) = Inr hf
           \<and> arr_prop healed ''flow'' = Some (fst (walk_nodes inject_step hf))
           \<and> schedulingConfig = (case filter is_schedule flow of
                                   [] \<Rightarrow> OnDemand
                                 | m # _ \<Rightarrow> parseSchedulingFromScheduleModule m)"
proof -
  from assms have nn: "parsed \<noteq> JNull" by (auto simp: heal_def split: if_splits)
  obtain p1 s0 where p1: "heal_schedule parsed = (p1, s0)" by (cases "heal_schedule parsed")
  with assms nn obtain p2 p3 where p2: "heal_top_metadata p1 = Inr p2"
    and p3: "heal_designer p2 = Inr p3" and h: "healed = heal_versions p3"
    and s: "schedulingConfig = s0"
    by (auto simp: heal_def split: sum.splits)
  let ?nf = "filter (\<lambda>n. \<not> is_schedule n) flow"
  have "arr_prop p1 ''flow'' = Some ?nf"
    using heal_schedule_flow [of parsed] p1 assms(2) by simp
  with heal_top_metadata_ok [OF p2] have s2: "arr_prop p2 ''flow'' = Some ?nf" by simp
  with p3 obtain hf where hf: "healFlow ?nf = Inr hf" and p3': "p3 = put_back p2 ''flow'' (Some hf)"
    by (auto simp: heal_designer_def flow_of_arr_prop split: sum.splits)
  from s2 p3' have s3: "arr_prop p3 ''flow'' = Some hf" by simp
  with h have "arr_prop healed ''flow'' = Some (fst (walk_nodes inject_step hf))"
    by (simp add: heal_versions_def flow_of_arr_prop injectVerifiedVersions_def)
  moreover have "s0 = (case filter is_schedule flow of
                         [] \<Rightarrow> OnDemand
                       | m # _ \<Rightarrow> parseSchedulingFromScheduleModule m)"
    using p1 assms(2)
    by (simp add: heal_schedule_def flow_of_arr_prop normalizeSchedulingModules_eq split: list.splits)
  ultimately show ?thesis using hf s by blast
qed

lemma heal_no_flow:
  assumes "heal parsed = Inr (healed, schedulingConfig)" and "arr_prop parsed ''flow'' = None"
  shows "arr_prop healed ''flow'' = None"
proof -
  from assms have nn: "parsed \<noteq> JNull" by (auto simp: heal_def split: if_splits)
  obtain p1 s0 where p1: "heal_schedule parsed = (p1, s0)" by (cases "heal_schedule parsed")
  with assms nn obtain p2 p3 where p2: "heal_top_metadata p1 = Inr p2"
    and p3: "heal_designer p2 = Inr p3" and h: "healed = heal_versions p3"
    by (auto simp: heal_def split: sum.splits)
  have "arr_prop p1 ''flow'' = None" using heal_schedule_flow [of parsed] p1 assms(2) by simp
  with heal_top_metadata_ok [OF p2] have n2: "arr_prop p2 ''flow'' = None" by simp
  with p3 have "p3 = p2" by (simp add: heal_designer_def flow_of_arr_prop)
  with h n2 show ?thesis by (simp add: heal_versions_def flow_of_arr_prop)
qed

subsection \<open>Interval texts\<close>














lemma every_prefix_lower: "toLowerCase (''every '' @ rest) = ''every '' @ toLowerCase rest"
  by (simp add: toLowerCase_def to_lower_def is_upper_def is_upper_latin1_def)




subsection \<open>The pattern for minutes\<close>











subsection \<open>Nodes below the root flow\<close>



lemma node_kind_put_back [simp]: "node_kind (put_back n ''routes'' r) = node_kind n"
  by (simp add: node_kind_def)





subsection \<open>Finite numbers\<close>
















subsection \<open>The claims\<close>





text \<open>
  Claim C7, on the code. \<^verbatim>\<open>injectVerifiedVersions\<close> reads the registry with
  \<^verbatim>\<open>VERIFIED_MODULE_VERSIONS[node.module]\<close> and takes every value other than
  \<^verbatim>\<open>undefined\<close> for a known version. The module id \<^verbatim>\<open>__proto__\<close> has no entry in the
  registry, yet the read answers with \<^verbatim>\<open>Object.prototype\<close>: the version that the node
  pins is not deleted but overwritten, and the healed tree carries the version
  \<^verbatim>\<open>{}\<close>.
\<close>

theorem inherited_key_version_not_deleted:
  "verifiedVersion ''__proto__'' = None
   \<and> heal inherited_key_blueprint = Inr (healed_inherited_key, OnDemand)
   \<and> map (\<lambda>n. (get_prop n ''module'', get_prop n ''version'')) (all_nodes healed_inherited_key_flow) =
       [(Some (JStr ''gateway:CustomWebHook''), Some (JNum 1)),
        (Some (JStr ''__proto__''), Some (JObj []))]"
  by code_simp

text \<open>
  For every other module id the injection does what is documented. After
  \<open>injectVerifiedVersions\<close>, every node of the tree, at any depth, whose module is a
  string other than \<^verbatim>\<open>__proto__\<close> has the registry's version when the module has an
  entry and no version when it has none; the modules of the nodes are those of the
  input, in the same order. The tree that healing returns has the property, since the
  injection is its last step.
\<close>

lemma injection_reconciles_versions:
  "list_all version_reconciled (all_nodes (fst (injectVerifiedVersions flow)))
   \<and> map (\<lambda>n. get_prop n ''module'') (all_nodes (fst (injectVerifiedVersions flow)))
       = map (\<lambda>n. get_prop n ''module'') (all_nodes flow)
   \<and> (heal parsed = Inr (healed, schedulingConfig) \<longrightarrow>
        (case flow_of healed of
           Some flow' \<Rightarrow> list_all version_reconciled (all_nodes flow')
         | None \<Rightarrow> True))"
proof (intro conjI impI)
  show "list_all version_reconciled (all_nodes (fst (injectVerifiedVersions flow)))"
    unfolding injectVerifiedVersions_def by (rule inject_reconciles(1))
  show "map (\<lambda>n. get_prop n ''module'') (all_nodes (fst (injectVerifiedVersions flow)))
       = map (\<lambda>n. get_prop n ''module'') (all_nodes flow)"
    unfolding injectVerifiedVersions_def by (rule inject_keeps_modules(1))
next
  assume h: "heal parsed = Inr (healed, schedulingConfig)"
  show "case flow_of healed of
          Some flow' \<Rightarrow> list_all version_reconciled (all_nodes flow')
        | None \<Rightarrow> True"
  proof (cases "arr_prop parsed ''flow''")
    case None
    from heal_no_flow [OF h None] show ?thesis by (simp add: flow_of_arr_prop)
  next
    case (Some f)
    from heal_flow_shape [OF h Some] obtain hf
      where "arr_prop healed ''flow'' = Some (fst (walk_nodes inject_step hf))" by blast
    then show ?thesis by (simp add: flow_of_arr_prop inject_reconciles(1))
  qed
qed





section \<open>Validity of well-formed blueprints\<close>


declare validateFlow.simps(2) [simp del] validateRoutes.simps(2) [simp del]


lemma seq_walk_pushed:
  "seq_walk (pushed [] ms) (pushed [] ms') = pushed [] (ms @ ms')"
  by (simp add: seq_walk_def pushed_def)




subsection \<open>The threaded handler\<close>

lemmas validateFlow_threaded_Cons = validateFlow_threaded.simps(2) [unfolded case_arr_prop]
lemmas validateRoutes_threaded_Cons = validateRoutes_threaded.simps(2) [unfolded case_arr_prop]
lemmas extractAllFlowModules_threaded_Cons =
  extractAllFlowModules_threaded.simps(2) [unfolded case_arr_prop]
lemmas extractRoutes_threaded_Cons = extractRoutes_threaded.simps(2) [unfolded case_arr_prop]

declare validateFlow_threaded.simps(2) [simp del] validateRoutes_threaded.simps(2) [simp del]
  extractAllFlowModules.simps(2) [simp del] extractRoutes.simps(2) [simp del]
  extractAllFlowModules_threaded.simps(2) [simp del] extractRoutes_threaded.simps(2) [simp del]

lemma keep_going_fst:
  "fst rest = unvisited \<Longrightarrow> fst (keep_going item unvisited w rest) = item # unvisited"
  by (simp add: keep_going_def split: sum.splits)



lemma seq_walk_pushed_Nil: "seq_walk w (pushed [] []) = w"
  by (simp add: seq_walk_def pushed_def split: sum.splits prod.splits)

text \<open>The array that the validator returns is the array it was handed.\<close>

lemma validateFlow_threaded_frame:
  "\<forall>p i. fst (validateFlow_threaded db flow p i) = flow"
  "\<forall>pos r. fst (validateRoutes_threaded db routes pos r) = routes"
proof (induction flow and routes rule: flow_induct)
  case Nil_flow
  show ?case by simp
next
  case (Cons_flow n flow)
  have sub: "put_back n ''routes''
      (fst (case arr_prop n ''routes'' of
              None \<Rightarrow> (None, pushed [] [])
            | Some routes \<Rightarrow> inner (validateRoutes_threaded db routes pos 0))) = n" for pos
    using Cons_flow.IH(1) by (cases "arr_prop n ''routes''") (simp_all add: inner_def put_back_arr_same)
  have sub': "put_back n ''routes'' (fst (inner (validateRoutes_threaded db rs pos 0))) = n"
    if "arr_prop n ''routes'' = Some rs" for rs pos
    using Cons_flow.IH(1) [OF that] that by (simp add: inner_def put_back_arr_same)
  show ?case
    using Cons_flow.IH(2)
    by (simp add: validateFlow_threaded_Cons Let_def keep_going_fst visit_node_def sub sub'
        split: option.splits json.splits)
next
  case Nil_routes
  show ?case by simp
next
  case (Cons_routes r rs)
  have sub: "put_back r ''flow''
      (fst (case arr_prop r ''flow'' of
              None \<Rightarrow> (None, pushed [] [])
            | Some routeFlow \<Rightarrow> inner (validateFlow_threaded db routeFlow p 0))) = r" for p
    using Cons_routes.IH(1) by (cases "arr_prop r ''flow''") (simp_all add: inner_def put_back_arr_same)
  show ?case
    using Cons_routes.IH(2)
    by (simp add: validateRoutes_threaded_Cons Let_def keep_going_fst visit_route_def sub)
qed


lemma extractAllFlowModules_threaded_frame:
  "\<forall>p i. fst (extractAllFlowModules_threaded flow p i) = flow"
  "\<forall>pos r. fst (extractRoutes_threaded routes pos r) = routes"
proof (induction flow and routes rule: flow_induct)
  case Nil_flow
  show ?case by simp
next
  case (Cons_flow n flow)
  have sub: "put_back n ''routes''
      (fst (case arr_prop n ''routes'' of
              None \<Rightarrow> (None, [])
            | Some routes \<Rightarrow> inner (extractRoutes_threaded routes pos 0))) = n" for pos
    using Cons_flow.IH(1) by (cases "arr_prop n ''routes''") (simp_all add: inner_def put_back_arr_same)
  show ?case
    using Cons_flow.IH(2)
    by (simp add: extractAllFlowModules_threaded_Cons Let_def skip_item_def collect_node_def sub)
next
  case Nil_routes
  show ?case by simp
next
  case (Cons_routes r rs)
  have sub: "put_back r ''flow''
      (fst (case arr_prop r ''flow'' of
              None \<Rightarrow> (None, [])
            | Some routeFlow \<Rightarrow> inner (extractAllFlowModules_threaded routeFlow p 0))) = r" for p
    using Cons_routes.IH(1) by (cases "arr_prop r ''flow''") (simp_all add: inner_def put_back_arr_same)
  show ?case
    using Cons_routes.IH(2)
    by (simp add: extractRoutes_threaded_Cons Let_def collect_route_def sub)
qed






text \<open>
  Claim C10. The tree after \<open>validate_scenario\<close> is the tree parsed from its input,
  whatever the catalog, the live catalog and the blueprint, and whether the handler
  answers with a report or fails: every array that \<open>validateFlow\<close> and
  \<open>extractAllFlowModules\<close> are handed comes back as it was, at every depth, and the
  handler itself assigns nothing.
\<close>

theorem validate_scenario_leaves_tree:
  "fst (validate_scenario db live parsed) = parsed"
proof (cases "arr_prop parsed ''flow''")
  case None
  then show ?thesis
    by (auto simp: validate_scenario_def arr_prop_def split: option.splits json.splits)
next
  case (Some flow)
  then have g: "get_prop parsed ''flow'' = Some (JArr flow)" by (simp add: arr_prop_Some)
  then have nn: "parsed \<noteq> JNull" by auto
  define w where "w = snd (validateFlow_threaded db flow ''Flow'' 0)"
  define ms where "ms = snd (extractAllFlowModules_threaded flow ''Flow'' 0)"
  have v: "validateFlow_threaded db flow ''Flow'' 0 = (flow, w)"
    using validateFlow_threaded_frame(1) [of db flow] by (intro prod_eqI) (simp_all add: w_def)
  have e: "extractAllFlowModules_threaded flow ''Flow'' 0 = (flow, ms)"
    using extractAllFlowModules_threaded_frame(1) [of flow]
    by (intro prod_eqI) (simp_all add: ms_def)
  have pb: "put_back parsed ''flow'' (Some flow) = parsed"
    by (rule put_back_arr_same [OF Some])
  show ?thesis
    unfolding validate_scenario_def
    by (simp only: g nn v e pb if_False option.case json.case prod.case Let_def)
       (simp split: sum.splits prod.splits)
qed

end
